(* ===== verification/Prelude.thy ===== *)
theory Prelude
  imports
    Main
    "HOL-Library.Finite_Map"
    "HOL-Library.Word"
    "HOL-Library.Multiset"
    "HOL-Library.Sublist"
    "HOL-Library.Char_ord"
    "HOL-Library.List_Lexorder"
begin

text \<open>
  The shared vocabulary of the development: the machine types of the Go program, its
  instants, its maps and the enumeration of their keys, the string functions of the
  standard library that the program calls, and the generic list lemmas that the components
  use.

  \<^item> Machine integers keep their width: \<open>int32\<close>, \<open>uint64\<close> and \<open>go_int\<close> (Go's
    \<^verbatim>\<open>int\<close>, 64 bits) are words, compared as signed values through \<open>sint\<close>.
  \<^item> A \<^verbatim>\<open>time.Time\<close> is the number of nanoseconds since the zero time (1 January of
    year 1, UTC), so \<^verbatim>\<open>IsZero\<close>, \<^verbatim>\<open>After\<close>, \<^verbatim>\<open>Before\<close> and
    \<^verbatim>\<open>Add\<close> are equality with 0, the order of the integers and their sum.
  \<^item> A Go map is a finite map \<open>('k, 'v) fmap\<close>; a \<^verbatim>\<open>map[K]struct{}\<close> is a set.
  \<^item> \<^verbatim>\<open>for k := range m\<close> visits the keys in an order the language leaves open. The
    order is an argument: a function \<open>rng\<close> from the set of keys to a list, about which
    only the locale \<open>go_range\<close> is known. Every theorem holds for every such function.
\<close>

section \<open>Collections of facts\<close>

named_theorems wire_simps \<open>field-wise conversions between records and protobuf messages\<close>

section \<open>Machine integers and instants\<close>

type_synonym int32 = "32 word"
type_synonym uint64 = "64 word"
type_synonym go_int = "64 word"

type_synonym time = int

abbreviation zero_time :: time where
  "zero_time \<equiv> 0"

abbreviation IsZero :: "time \<Rightarrow> bool" where
  "IsZero t \<equiv> t = zero_time"

abbreviation After :: "time \<Rightarrow> time \<Rightarrow> bool" where
  "After t u \<equiv> u < t"

abbreviation Before :: "time \<Rightarrow> time \<Rightarrow> bool" where
  "Before t u \<equiv> t < u"

text \<open>One minute, in the nanoseconds of a \<^verbatim>\<open>time.Duration\<close>.\<close>

definition Minute :: int where
  "Minute = 60000000000"

lemma sint64_bounds: "- (2 ^ 63) \<le> sint (w :: 64 word)" "sint (w :: 64 word) < 2 ^ 63"
  using sint_greater_eq [of w] sint_less [of w] by simp_all

lemma sint32_bounds: "- (2 ^ 31) \<le> sint (w :: 32 word)" "sint (w :: 32 word) < 2 ^ 31"
  using sint_greater_eq [of w] sint_less [of w] by simp_all

lemma sint64_of_int: "- (2 ^ 63) \<le> k \<Longrightarrow> k < 2 ^ 63 \<Longrightarrow> sint (of_int k :: 64 word) = k"
  by (simp add: signed_of_int signed_take_bit_int_eq_self)

text \<open>Conversion from 64 to 32 bits drops the multiples of \<open>2 ^ 32\<close>.\<close>

lemma ucast32_add_mult: "(ucast (a + 2 ^ 32 * k :: 64 word) :: 32 word) = ucast a"
proof -
  have "uint (ucast (a + 2 ^ 32 * k) :: 32 word) = uint (a + 2 ^ 32 * k) mod 2 ^ 32"
    by (simp add: unsigned_ucast_eq take_bit_eq_mod)
  also have "\<dots> = (uint a + 2 ^ 32 * uint k) mod 2 ^ 64 mod 2 ^ 32"
    by (simp add: uint_word_ariths mod_simps)
  also have "\<dots> = (uint a + 2 ^ 32 * uint k) mod 2 ^ 32"
    by (rule mod_mod_cancel) (simp add: le_imp_power_dvd)
  also have "\<dots> = uint a mod 2 ^ 32" by (rule mod_mult_self2)
  also have "\<dots> = uint (ucast a :: 32 word)"
    by (simp add: unsigned_ucast_eq take_bit_eq_mod)
  finally show ?thesis by (simp add: word_uint_eq_iff)
qed

text \<open>Consecutive words: counting down from a word does not repeat within \<open>2 ^ 64\<close> steps.\<close>

lemma of_nat_word64_inj:
  assumes "i < 2 ^ 64" "j < 2 ^ 64" "(of_nat i :: 64 word) = of_nat j"
  shows "i = j"
proof -
  have "unat (of_nat i :: 64 word) = unat (of_nat j :: 64 word)"
    using assms(3) by (rule arg_cong)
  with assms(1,2) show ?thesis by (simp add: unat_of_nat)
qed

lemma word64_minus_inj:
  assumes "i < 2 ^ 64" "j < 2 ^ 64" "w - (of_nat i :: 64 word) = w - of_nat j"
  shows "i = j"
proof -
  have "(of_nat i :: 64 word) = of_nat j"
    using assms(3) by (simp only: diff_left_imp_eq)
  with assms(1,2) show ?thesis by (rule of_nat_word64_inj)
qed

section \<open>Maps\<close>

text \<open>Indexing a Go map gives the zero value of the element type for an absent key.\<close>

definition goget :: "'v \<Rightarrow> ('k, 'v) fmap \<Rightarrow> 'k \<Rightarrow> 'v" where
  "goget d m k = (case fmlookup m k of None \<Rightarrow> d | Some v \<Rightarrow> v)"

lemma goget_fmempty [simp]: "goget d fmempty k = d"
  by (simp add: goget_def)

lemma goget_fmupd [simp]: "goget d (fmupd k v m) k' = (if k = k' then v else goget d m k')"
  by (simp add: goget_def)

lemma goget_fmdrop [simp]: "goget d (fmdrop k m) k' = (if k = k' then d else goget d m k')"
  by (simp add: goget_def)

lemma goget_Some: "fmlookup m k = Some v \<Longrightarrow> goget d m k = v"
  by (simp add: goget_def)

lemma fmdom'_iff: "k \<in> fmdom' m \<longleftrightarrow> (\<exists>v. fmlookup m k = Some v)"
  by (auto simp: fmlookup_dom'_iff)

text \<open>What the language promises about \<^verbatim>\<open>range\<close> over a map: every key once.\<close>

locale go_range =
  fixes rng :: "'a set \<Rightarrow> 'a list"
  assumes distinct_rng: "finite A \<Longrightarrow> distinct (rng A)"
    and set_rng: "finite A \<Longrightarrow> set (rng A) = A"
begin

lemma rng_empty: "rng {} = []"
  using set_rng [of "{}"] by simp

lemma length_rng: "finite A \<Longrightarrow> length (rng A) = card A"
  using distinct_card [OF distinct_rng] set_rng by metis

lemma mset_rng: "finite A \<Longrightarrow> mset (rng A) = mset_set A"
  using distinct_rng [of A] set_rng [of A] mset_set_set by metis

end

text \<open>One such enumeration, for keys with a linear order: ascending.\<close>

lemma go_range_sorted: "go_range (sorted_list_of_set :: 'a::linorder set \<Rightarrow> 'a list)"
  by unfold_locales simp_all

interpretation asc: go_range "sorted_list_of_set :: 'a::linorder set \<Rightarrow> 'a list"
  by (rule go_range_sorted)

section \<open>Strings\<close>

text \<open>
  Go strings are byte sequences, \<open>char list\<close> here (a \<open>char\<close> is a byte).
  \<^verbatim>\<open>strings.TrimSpace\<close> and \<^verbatim>\<open>strings.Fields\<close> cut at the Unicode white-space
  code points. \<open>ws_seqs\<close> lists their UTF-8 encodings: U+0009 to U+000D, U+0020, U+0085,
  U+00A0, U+1680, U+2000 to U+200A, U+2028, U+2029, U+202F, U+205F and U+3000. A lead byte
  never occurs inside an encoding, so looking for these sequences byte by byte finds
  exactly the white-space runes that decoding the string finds.
\<close>

definition ws_seqs :: "string list" where
  "ws_seqs =
     [[CHR 0x09], [CHR 0x0A], [CHR 0x0B], [CHR 0x0C], [CHR 0x0D], [CHR 0x20],
      [CHR 0xC2, CHR 0x85], [CHR 0xC2, CHR 0xA0], [CHR 0xE1, CHR 0x9A, CHR 0x80],
      [CHR 0xE2, CHR 0x80, CHR 0x80], [CHR 0xE2, CHR 0x80, CHR 0x81],
      [CHR 0xE2, CHR 0x80, CHR 0x82], [CHR 0xE2, CHR 0x80, CHR 0x83],
      [CHR 0xE2, CHR 0x80, CHR 0x84], [CHR 0xE2, CHR 0x80, CHR 0x85],
      [CHR 0xE2, CHR 0x80, CHR 0x86], [CHR 0xE2, CHR 0x80, CHR 0x87],
      [CHR 0xE2, CHR 0x80, CHR 0x88], [CHR 0xE2, CHR 0x80, CHR 0x89],
      [CHR 0xE2, CHR 0x80, CHR 0x8A], [CHR 0xE2, CHR 0x80, CHR 0xA8],
      [CHR 0xE2, CHR 0x80, CHR 0xA9], [CHR 0xE2, CHR 0x80, CHR 0xAF],
      [CHR 0xE2, CHR 0x81, CHR 0x9F], [CHR 0xE3, CHR 0x80, CHR 0x80]]"

text \<open>The length of the white-space encoding a string starts with, 0 when there is none.\<close>

definition ws_len :: "string \<Rightarrow> nat" where
  "ws_len s = (case find (\<lambda>w. prefix w s) ws_seqs of None \<Rightarrow> 0 | Some w \<Rightarrow> length w)"

text \<open>A string as its units: white-space encodings (marked \<open>True\<close>) and single bytes.\<close>

function units :: "string \<Rightarrow> (bool \<times> string) list" where
  "units [] = []"
| "units (c # cs) =
     (if ws_len (c # cs) = 0 then (False, [c]) # units cs
      else (True, take (ws_len (c # cs)) (c # cs)) # units (drop (ws_len (c # cs)) (c # cs)))"
  by pat_completeness auto
termination
  by (relation "measure length") auto

declare units.simps(2) [simp del]

definition TrimSpace :: "string \<Rightarrow> string" where
  "TrimSpace s = concat (map snd (rev (dropWhile fst (rev (dropWhile fst (units s))))))"

fun fields_acc :: "string \<Rightarrow> (bool \<times> string) list \<Rightarrow> string list" where
  "fields_acc cur [] = (if cur = [] then [] else [cur])"
| "fields_acc cur ((sp, w) # us) =
     (if sp then (if cur = [] then fields_acc [] us else cur # fields_acc [] us)
      else fields_acc (cur @ w) us)"

definition Fields :: "string \<Rightarrow> string list" where
  "Fields s = fields_acc [] (units s)"

fun Join :: "string list \<Rightarrow> string \<Rightarrow> string" where
  "Join [] sep = []"
| "Join [x] sep = x"
| "Join (x # y # ys) sep = x @ sep @ Join (y # ys) sep"

definition TrimPrefix :: "string \<Rightarrow> string \<Rightarrow> string" where
  "TrimPrefix s p = (if prefix p s then drop (length p) s else s)"

definition TrimSuffix :: "string \<Rightarrow> string \<Rightarrow> string" where
  "TrimSuffix s p = (if suffix p s then take (length s - length p) s else s)"

text \<open>Scanning: how the units of a string relate to the units of its parts.\<close>

lemma find_prefix_append:
  assumes "find (\<lambda>w. prefix w (a @ b)) ws = Some w" "length w \<le> length a"
  shows "find (\<lambda>w. prefix w a) ws = Some w"
  using assms
proof (induction ws)
  case Nil
  then show ?case by simp
next
  case (Cons v ws)
  then show ?case
    by (auto split: if_splits intro: prefix_length_prefix [of _ "a @ b"] dest: append_prefixD prefix_order.trans)
qed

lemma ws_len_append_pos:
  "0 < ws_len (a @ b) \<Longrightarrow> ws_len (a @ b) \<le> length a \<Longrightarrow> ws_len a = ws_len (a @ b)"
  by (auto simp: ws_len_def split: option.splits dest: find_prefix_append)

lemma ws_len_zero_iff: "ws_len s = 0 \<longleftrightarrow> (\<forall>w \<in> set ws_seqs. \<not> prefix w s)"
proof -
  have "\<forall>w \<in> set ws_seqs. w \<noteq> []" by (simp add: ws_seqs_def)
  then show ?thesis
    by (auto simp: ws_len_def find_None_iff find_Some_iff split: option.splits)
qed

lemma ws_len_append_zero: "ws_len (a @ b) = 0 \<Longrightarrow> ws_len a = 0"
  by (auto simp: ws_len_zero_iff)

lemma ws_len_le: "ws_len s \<le> length s"
  by (auto simp: ws_len_def find_Some_iff split: option.splits dest: prefix_length_le)

lemma ws_len_space: "ws_len (CHR 0x20 # r) = 1"
  by (simp add: ws_len_def ws_seqs_def)

text \<open>A blank after a string does not complete a white-space encoding begun in it.\<close>

lemma ws_seqs_no_inner_blank: "w \<in> set ws_seqs \<Longrightarrow> 0 < i \<Longrightarrow> i < length w \<Longrightarrow> w ! i \<noteq> CHR 0x20"
  by (auto simp: ws_seqs_def nth_Cons' split: if_splits)

lemma ws_len_blank_after:
  assumes "ws_len t = 0" "t \<noteq> []"
  shows "ws_len (t @ CHR 0x20 # r) = 0"
  unfolding ws_len_zero_iff
proof
  fix w
  assume w: "w \<in> set ws_seqs"
  show "\<not> prefix w (t @ CHR 0x20 # r)"
  proof
    assume pre: "prefix w (t @ CHR 0x20 # r)"
    show False
    proof (cases "length w \<le> length t")
      case True
      with pre have "prefix w t"
        by (auto intro: prefix_length_prefix [of _ "t @ CHR 0x20 # r"])
      with assms(1) w show False by (auto simp: ws_len_zero_iff)
    next
      case False
      with pre have "w ! length t = CHR 0x20"
        by (auto simp: prefix_def nth_append dest: arg_cong [where f = "\<lambda>x. x ! length t"])
      with w False assms(2) ws_seqs_no_inner_blank [of w "length t"] show False by simp
    qed
  qed
qed

lemma units_byte: "ws_len (c # cs) = 0 \<Longrightarrow> units (c # cs) = (False, [c]) # units cs"
  by (simp add: units.simps)

lemma units_blank: "units (CHR 0x20 # r) = (True, [CHR 0x20]) # units r"
  by (simp add: units.simps(2) [of "CHR 0x20" r] ws_len_space)

lemma concat_units [simp]: "concat (map snd (units s)) = s"
proof (induction s rule: units.induct)
  case 1
  then show ?case by simp
next
  case (2 c cs)
  then show ?case
    by (cases "ws_len (c # cs) = 0") (simp_all add: units.simps(2) [of c cs])
qed

lemma units_suffix: "units s = as @ bs \<Longrightarrow> units (concat (map snd bs)) = bs"
proof (induction s arbitrary: as rule: units.induct)
  case 1
  then show ?case by simp
next
  case (2 c cs)
  show ?case
  proof (cases as)
    case Nil
    with "2.prems" show ?thesis by (metis append_Nil concat_units)
  next
    case (Cons u us)
    with 2 show ?thesis
      by (cases "ws_len (c # cs) = 0") (auto simp: units.simps(2) [of c cs])
  qed
qed

lemma units_prefix: "units s = as @ bs \<Longrightarrow> units (concat (map snd as)) = as"
proof (induction s arbitrary: as rule: units.induct)
  case 1
  then show ?case by simp
next
  case (2 c cs)
  show ?case
  proof (cases as)
    case Nil
    then show ?thesis by simp
  next
    case (Cons u us)
    show ?thesis
    proof (cases "ws_len (c # cs) = 0")
      case True
      with "2.prems" Cons have u: "u = (False, [c])" and us: "units cs = us @ bs"
        by (simp_all add: units_byte)
      from us have "cs = concat (map snd us) @ concat (map snd bs)"
        by (metis concat_append concat_units map_append)
      with True have "ws_len (c # concat (map snd us)) = 0"
        by (metis append_Cons ws_len_append_zero)
      with u Cons "2.IH"(1) [OF True us] show ?thesis by (simp add: units_byte)
    next
      case False
      let ?n = "ws_len (c # cs)"
      from False "2.prems" Cons have u: "u = (True, take ?n (c # cs))"
        and us: "units (drop ?n (c # cs)) = us @ bs"
        by (simp_all add: units.simps(2) [of c cs])
      let ?a = "take ?n (c # cs) @ concat (map snd us)"
      have "c # cs = ?a @ concat (map snd bs)"
        by (metis append.assoc append_take_drop_id concat_append concat_units map_append us)
      then have len: "ws_len ?a = ?n"
        using False ws_len_le [of "c # cs"]
        by (metis append_take_drop_id bot_nat_0.not_eq_extremum le_add1 length_append length_take
            min_absorb2 ws_len_append_pos)
      obtain a as' where a: "?a = a # as'"
        using False by (cases ?n) auto
      have "units ?a = (True, take ?n ?a) # units (drop ?n ?a)"
        using len False a by (simp add: units.simps(2) [of a as'])
      then show ?thesis
        using u Cons "2.IH"(2) [OF False us] ws_len_le [of "c # cs"] by simp
    qed
  qed
qed

text \<open>Words without white space, and what \<^verbatim>\<open>Fields\<close> makes of them.\<close>

definition clean :: "string \<Rightarrow> bool" where
  "clean w \<longleftrightarrow> (\<forall>t. suffix t w \<longrightarrow> t \<noteq> [] \<longrightarrow> ws_len t = 0)"

lemma clean_Cons: "clean (c # cs) \<longleftrightarrow> ws_len (c # cs) = 0 \<and> clean cs"
  by (auto simp: clean_def suffix_Cons)

lemma clean_Nil [simp]: "clean []"
  by (simp add: clean_def)

lemma units_clean_blank:
  "clean w \<Longrightarrow> units (w @ CHR 0x20 # r) = map (\<lambda>c. (False, [c])) w @ (True, [CHR 0x20]) # units r"
proof (induction w)
  case Nil
  then show ?case by (simp add: units_blank)
next
  case (Cons c w)
  then have "ws_len (c # w @ CHR 0x20 # r) = 0"
    using ws_len_blank_after [of "c # w" r] by (simp add: clean_Cons)
  with Cons show ?case by (simp add: units_byte clean_Cons)
qed

lemma units_clean: "clean w \<Longrightarrow> units w = map (\<lambda>c. (False, [c])) w"
  by (induction w) (simp_all add: clean_Cons units_byte)

lemma fields_acc_bytes: "fields_acc cur (map (\<lambda>c. (False, [c])) w @ us) = fields_acc (cur @ w) us"
  by (induction w arbitrary: cur) simp_all

lemma Fields_clean: "clean w \<Longrightarrow> w \<noteq> [] \<Longrightarrow> Fields w = [w]"
  using fields_acc_bytes [of "[]" w "[]"] by (simp add: Fields_def units_clean)

lemma Fields_clean_blank:
  "clean w \<Longrightarrow> w \<noteq> [] \<Longrightarrow> Fields (w @ CHR 0x20 # r) = w # Fields r"
  by (simp add: Fields_def units_clean_blank fields_acc_bytes)

lemma Fields_Join:
  "list_all (\<lambda>w. clean w \<and> w \<noteq> []) ws \<Longrightarrow> Fields (Join ws '' '') = ws"
proof (induction ws "'' ''" rule: Join.induct)
  case 1
  then show ?case by (simp add: Fields_def)
next
  case (2 x)
  then show ?case by (simp add: Fields_clean)
next
  case (3 x y ys)
  then show ?case by (simp add: Fields_clean_blank)
qed

lemma fields_acc_clean:
  assumes "\<forall>t. suffix t cur \<longrightarrow> t \<noteq> [] \<longrightarrow> ws_len (t @ s) = 0"
  shows "list_all (\<lambda>w. clean w \<and> w \<noteq> []) (fields_acc cur (units s))"
  using assms
proof (induction s arbitrary: cur rule: units.induct)
  case 1
  then show ?case by (simp add: clean_def)
next
  case (2 c cs)
  show ?case
  proof (cases "ws_len (c # cs) = 0")
    case True
    have "\<forall>t. suffix t (cur @ [c]) \<longrightarrow> t \<noteq> [] \<longrightarrow> ws_len (t @ cs) = 0"
      using True "2.prems" by (auto simp: suffix_snoc)
    with "2.IH"(1) True show ?thesis by (simp add: units_byte)
  next
    case False
    have "clean cur"
      using "2.prems" ws_len_append_zero by (auto simp: clean_def)
    moreover have "list_all (\<lambda>w. clean w \<and> w \<noteq> []) (fields_acc [] (units (drop (ws_len (c # cs)) (c # cs))))"
      using "2.IH"(2) [OF False, of "[]"] by simp
    ultimately show ?thesis using False by (simp add: units.simps(2) [of c cs])
  qed
qed

lemma Fields_are_clean: "list_all (\<lambda>w. clean w \<and> w \<noteq> []) (Fields s)"
  unfolding Fields_def by (rule fields_acc_clean) simp

lemma fields_acc_dropWhile: "fields_acc [] (dropWhile fst us) = fields_acc [] us"
  by (induction us) auto

lemma fields_acc_trailing:
  "list_all fst ss \<Longrightarrow> fields_acc cur (us @ ss) = fields_acc cur us"
proof (induction us arbitrary: cur)
  case Nil
  then show ?case by (induction ss arbitrary: cur) auto
next
  case (Cons u us)
  then show ?case by (cases u) simp
qed

lemma Fields_TrimSpace: "Fields (TrimSpace s) = Fields s"
proof -
  let ?m = "dropWhile fst (units s)"
  let ?t = "rev (dropWhile fst (rev ?m))"
  have m: "units s = takeWhile fst (units s) @ ?m" by simp
  then have um: "units (concat (map snd ?m)) = ?m" by (rule units_suffix)
  have split: "?m = ?t @ rev (takeWhile fst (rev ?m))"
    by (metis rev_append rev_rev_ident takeWhile_dropWhile_id)
  then have "units (concat (map snd ?t)) = ?t"
    using um by (metis units_prefix)
  moreover have "list_all fst (rev (takeWhile fst (rev ?m)))"
    by (auto simp: list_all_iff dest: set_takeWhileD)
  then have "fields_acc [] ?m = fields_acc [] ?t"
    using fields_acc_trailing split by metis
  ultimately show ?thesis
    by (simp add: Fields_def TrimSpace_def fields_acc_dropWhile)
qed

section \<open>Decimal numbers\<close>

text \<open>
  \<^verbatim>\<open>strconv.Atoi\<close>: an optional sign and decimal digits, with an error for anything else
  and for a value outside the range of \<^verbatim>\<open>int\<close>. \<open>Itoa\<close> is its counterpart, the verb
  \<^verbatim>\<open>%d\<close> of \<^verbatim>\<open>fmt\<close>.
\<close>

definition isDigit :: "char \<Rightarrow> bool" where
  "isDigit c \<longleftrightarrow> 48 \<le> (of_char c :: nat) \<and> (of_char c :: nat) \<le> 57"

definition digitsVal :: "string \<Rightarrow> nat" where
  "digitsVal ds = foldl (\<lambda>n c. 10 * n + (of_char c - 48)) 0 ds"

definition Atoi :: "string \<Rightarrow> go_int option" where
  "Atoi s =
     (let neg = (s \<noteq> [] \<and> hd s = CHR ''-'');
          ds = (if s \<noteq> [] \<and> (hd s = CHR ''-'' \<or> hd s = CHR ''+'') then tl s else s);
          v = (if neg then - int (digitsVal ds) else int (digitsVal ds))
      in if ds \<noteq> [] \<and> list_all isDigit ds \<and> - (2 ^ 63) \<le> v \<and> v < 2 ^ 63 then Some (of_int v) else None)"

fun natDigits :: "nat \<Rightarrow> string" where
  "natDigits n = (if n < 10 then [char_of (48 + n)] else natDigits (n div 10) @ [char_of (48 + n mod 10)])"

definition Itoa :: "int \<Rightarrow> string" where
  "Itoa n = (if n < 0 then CHR ''-'' # natDigits (nat (- n)) else natDigits (nat n))"

declare natDigits.simps [simp del]

lemma char_digit: "d < 10 \<Longrightarrow> of_char (char_of (48 + d) :: char) = (48 + d :: nat)"
  by (simp add: of_char_of)

lemma isDigit_char: "(d :: nat) < 10 \<Longrightarrow> isDigit (char_of (48 + d))"
  by (simp add: isDigit_def char_digit)

lemma natDigits_ok: "natDigits n \<noteq> [] \<and> list_all isDigit (natDigits n) \<and> digitsVal (natDigits n) = n"
proof (induction n rule: natDigits.induct)
  case (1 n)
  then show ?case
    by (subst (1 2 3) natDigits.simps) (auto simp: isDigit_char char_digit digitsVal_def)
qed

lemma natDigits_sign: "natDigits n \<noteq> [] \<and> hd (natDigits n) \<noteq> CHR ''-'' \<and> hd (natDigits n) \<noteq> CHR ''+''"
proof -
  have "natDigits n \<noteq> []" "isDigit (hd (natDigits n))"
    using natDigits_ok [of n] by (auto simp: list_all_iff)
  then show ?thesis by (auto simp: isDigit_def)
qed

lemma Atoi_Itoa: "Atoi (Itoa (sint w)) = Some w"
proof -
  have "- (2 ^ 63) \<le> sint w \<and> sint w < 2 ^ 63" using sint64_bounds by blast
  then show ?thesis
    using natDigits_ok natDigits_sign [of "nat (sint w)"]
    by (auto simp: Atoi_def Itoa_def Let_def)
qed

section \<open>Lists\<close>

text \<open>The last \<open>n\<close> elements.\<close>

definition lastn :: "nat \<Rightarrow> 'a list \<Rightarrow> 'a list" where
  "lastn n xs = drop (length xs - n) xs"

lemma lastn_short: "length xs \<le> n \<Longrightarrow> lastn n xs = xs"
  by (simp add: lastn_def)

lemma lastn_Nil [simp]: "lastn n [] = []"
  by (simp add: lastn_def)

lemma length_lastn [simp]: "length (lastn n xs) = min n (length xs)"
  by (simp add: lastn_def)

lemma set_lastn_subset: "set (lastn n xs) \<subseteq> set xs"
  by (simp add: lastn_def set_drop_subset)

lemma last_lastn: "0 < n \<Longrightarrow> xs \<noteq> [] \<Longrightarrow> last (lastn n xs) = last xs"
  by (simp add: lastn_def)

lemma lastn_eq_Nil [simp]: "lastn n xs = [] \<longleftrightarrow> n = 0 \<or> xs = []"
  by (cases xs) (auto simp: lastn_def)

lemma distinct_lastn: "distinct xs \<Longrightarrow> distinct (lastn n xs)"
  by (simp add: lastn_def)

lemma lastn_snoc:
  "0 < n \<Longrightarrow>
   lastn n (xs @ [x]) = (if length (lastn n xs @ [x]) > n then tl (lastn n xs @ [x]) else lastn n xs @ [x])"
  by (auto simp: lastn_def tl_drop drop_Suc Suc_diff_le simp flip: drop_Suc)

lemma lastn_Cons:
  "lastn n (x # xs) = (if length xs < n then x # lastn n xs else lastn n xs)"
  by (auto simp: lastn_def Suc_diff_le)

text \<open>Replacing the last element that satisfies a predicate.\<close>

fun update_last :: "('a \<Rightarrow> bool) \<Rightarrow> ('a \<Rightarrow> 'a) \<Rightarrow> 'a list \<Rightarrow> 'a list" where
  "update_last P f [] = []"
| "update_last P f (x # xs) =
     (if P x \<and> \<not> list_ex P xs then f x # xs else x # update_last P f xs)"

lemma length_update_last [simp]: "length (update_last P f xs) = length xs"
  by (induction xs) auto

lemma map_update_last:
  assumes "distinct ys" "filter (\<lambda>y. P (g y)) ys \<noteq> []"
    and "z = last (filter (\<lambda>y. P (g y)) ys)"
  shows "map (g(z := f (g z))) ys = update_last P f (map g ys)"
  using assms
proof (induction ys)
  case Nil
  then show ?case by simp
next
  case (Cons y ys)
  show ?case
  proof (cases "filter (\<lambda>y. P (g y)) ys = []")
    case True
    with Cons.prems have "z = y" "P (g y)" by (auto split: if_splits)
    moreover have "\<not> list_ex P (map g ys)"
      using True by (auto simp: list_ex_iff filter_empty_conv)
    moreover have "map (g(y := f (g y))) ys = map g ys"
      using Cons.prems(1) by simp
    ultimately show ?thesis by simp
  next
    case False
    with Cons.prems have z: "z = last (filter (\<lambda>y. P (g y)) ys)" by simp
    have "z \<in> set ys"
      using False last_in_set [OF False] z by auto
    moreover have "list_ex P (map g ys)"
      using False by (auto simp: list_ex_iff filter_empty_conv)
    moreover have "z \<noteq> y"
      using Cons.prems(1) \<open>z \<in> set ys\<close> by auto
    moreover have "map (g(z := f (g z))) ys = update_last P f (map g ys)"
      using Cons.prems(1) by (intro Cons.IH False z) simp
    ultimately show ?thesis by (simp add: fun_upd_def)
  qed
qed

text \<open>Splitting a list by the value of a function and joining the parts loses nothing.\<close>

lemma mset_concat_partition:
  assumes "distinct gs" "\<forall>x \<in> set xs. f x \<in> set gs"
  shows "mset (concat (map (\<lambda>g. filter (\<lambda>x. f x = g) xs) gs)) = mset xs"
  using assms
proof (induction gs arbitrary: xs)
  case Nil
  then show ?case by simp
next
  case (Cons g gs)
  let ?r = "filter (\<lambda>x. f x \<noteq> g) xs"
  have "filter (\<lambda>x. f x = h) ?r = filter (\<lambda>x. f x = h) xs" if "h \<in> set gs" for h
    using Cons.prems(1) that by (auto intro!: filter_cong)
  then have "concat (map (\<lambda>h. filter (\<lambda>x. f x = h) xs) gs) = concat (map (\<lambda>h. filter (\<lambda>x. f x = h) ?r) gs)"
    by (auto intro!: arg_cong [where f = concat])
  moreover have "mset (concat (map (\<lambda>h. filter (\<lambda>x. f x = h) ?r) gs)) = mset ?r"
    using Cons.prems by (intro Cons.IH) auto
  ultimately show ?case by (simp flip: multiset_partition)
qed

section \<open>Sorting\<close>

text \<open>
  What \<^verbatim>\<open>sort.Slice\<close> promises with a comparison by a key: a permutation in ascending
  order. The order of elements with equal keys is left open.
\<close>

locale slice_sort =
  fixes srt :: "'a list \<Rightarrow> 'a list" and key :: "'a \<Rightarrow> 'b::linorder"
  assumes mset_srt: "mset (srt xs) = mset xs"
    and sorted_srt: "sorted (map key (srt xs))"
begin

lemma set_srt: "set (srt xs) = set xs"
  using mset_srt by (metis set_mset_mset)

lemma length_srt: "length (srt xs) = length xs"
  using mset_srt by (metis size_mset)

lemma srt_order: "i < j \<Longrightarrow> j < length xs \<Longrightarrow> key (srt xs ! i) \<le> key (srt xs ! j)"
  using sorted_srt [of xs] by (simp add: sorted_iff_nth_mono length_srt)

end

lemma slice_sort_sort_key: "slice_sort (sort_key key) key"
  by unfold_locales simp_all

section \<open>Pairwise application\<close>

lemma map2_append_short: "length xs \<le> length ys \<Longrightarrow> map2 f xs (ys @ zs) = map2 f xs ys"
  by (simp add: zip_append2)

lemma map2_snoc:
  "drop (length xs) ys = y # zs \<Longrightarrow> map2 f (xs @ [x]) ys = map2 f xs ys @ [f x y]"
proof (induction xs arbitrary: ys)
  case (Cons a xs)
  then show ?case by (cases ys) auto
qed simp

lemma drop_eq_ConsD: "drop n ys = y # zs \<Longrightarrow> drop (Suc n) ys = zs \<and> Suc n \<le> length ys"
proof (induction n arbitrary: ys)
  case (Suc n)
  then show ?case by (cases ys) auto
qed simp

section \<open>Trimming\<close>

text \<open>ASCII bytes never complete a white-space encoding that began before them, so they split a scan.\<close>

definition ascii :: "char \<Rightarrow> bool" where
  "ascii c \<longleftrightarrow> (of_char c :: nat) < 128"

definition blank_char :: "char \<Rightarrow> bool" where
  "blank_char c \<longleftrightarrow> c \<in> {CHR 0x09, CHR 0x0A, CHR 0x0B, CHR 0x0C, CHR 0x0D, CHR 0x20}"

definition solid :: "string \<Rightarrow> bool" where
  "solid s \<longleftrightarrow> s \<noteq> [] \<and> ascii (hd s) \<and> \<not> blank_char (hd s) \<and> ascii (last s) \<and> \<not> blank_char (last s)"

lemma ws_seqs_inner: "w \<in> set ws_seqs \<Longrightarrow> 0 < i \<Longrightarrow> i < length w \<Longrightarrow> \<not> ascii (w ! i)"
  by (auto simp: ws_seqs_def ascii_def nth_Cons' split: if_splits)

lemma ws_seqs_first: "w \<in> set ws_seqs \<Longrightarrow> w \<noteq> [] \<and> (ascii (hd w) \<longrightarrow> blank_char (hd w) \<and> length w = 1)"
  by (auto simp: ws_seqs_def ascii_def blank_char_def)

lemma prefix_ascii:
  assumes "ascii c" "x \<noteq> []" "w \<in> set ws_seqs"
  shows "prefix w (x @ c # r) \<longleftrightarrow> prefix w x"
proof
  assume pre: "prefix w (x @ c # r)"
  have "length w \<le> length x"
  proof (rule ccontr)
    assume len: "\<not> length w \<le> length x"
    with pre have "w ! length x = c"
      by (auto simp: prefix_def nth_append dest: arg_cong [where f = "\<lambda>s. s ! length x"])
    with ws_seqs_inner [OF assms(3), of "length x"] len assms(1,2) show False by simp
  qed
  with pre show "prefix w x" by (auto intro: prefix_length_prefix [of _ "x @ c # r"])
qed auto

lemma ws_len_ascii: "ascii c \<Longrightarrow> x \<noteq> [] \<Longrightarrow> ws_len (x @ c # r) = ws_len x"
proof -
  assume "ascii c" "x \<noteq> []"
  then have "find (\<lambda>w. prefix w (x @ c # r)) ws_seqs = find (\<lambda>w. prefix w x) ws_seqs"
    by (intro find_cong) (simp_all add: prefix_ascii)
  then show ?thesis by (simp add: ws_len_def)
qed

lemma units_ascii: "ascii c \<Longrightarrow> units (x @ c # r) = units x @ units (c # r)"
proof (induction x rule: units.induct)
  case (2 a x)
  have len: "ws_len (a # x @ c # r) = ws_len (a # x)" using ws_len_ascii [of c "a # x" r] 2 by simp
  have le: "ws_len (a # x) \<le> length (a # x)" by (rule ws_len_le)
  show ?case
  proof (cases "ws_len (a # x) = 0")
    case True
    with 2 len show ?thesis by (simp add: units_byte)
  next
    case False
    have "take (ws_len (a # x)) (a # x @ c # r) = take (ws_len (a # x)) (a # x)"
      "drop (ws_len (a # x)) (a # x @ c # r) = drop (ws_len (a # x)) (a # x) @ c # r"
      using le take_append [of "ws_len (a # x)" "a # x" "c # r"] drop_append [of "ws_len (a # x)" "a # x" "c # r"]
      by simp_all
    with 2 False len show ?thesis
      by (simp add: units.simps(2) [of a x] units.simps(2) [of a "x @ c # r"])
  qed
qed simp

lemma units_solid: "ascii c \<Longrightarrow> \<not> blank_char c \<Longrightarrow> units (c # r) = (False, [c]) # units r"
proof -
  assume c: "ascii c" "\<not> blank_char c"
  have "\<not> prefix w (c # r)" if "w \<in> set ws_seqs" for w
    using ws_seqs_first [OF that] c by (cases w) auto
  then show ?thesis by (intro units_byte) (simp add: ws_len_zero_iff)
qed

lemma ws_len_blank: "blank_char c \<Longrightarrow> ws_len (c # r) = 1"
  unfolding blank_char_def by (elim insertE emptyE) (simp_all add: ws_len_def ws_seqs_def)

lemma units_blanks: "list_all blank_char b \<Longrightarrow> units (b @ r) = map (\<lambda>c. (True, [c])) b @ units r"
proof (induction b)
  case (Cons c b)
  have "ws_len (c # b @ r) = 1" using Cons.prems by (simp add: ws_len_blank)
  with Cons show ?case by (simp add: units.simps(2))
qed simp

lemma blank_ascii: "blank_char c \<Longrightarrow> ascii c"
  by (auto simp: blank_char_def ascii_def)

lemma units_append_blanks: "list_all blank_char b \<Longrightarrow> units (x @ b) = units x @ map (\<lambda>c. (True, [c])) b"
  using units_blanks [of b "[]"] by (cases b) (simp_all add: units_ascii blank_ascii)

lemma units_solid_ends:
  assumes "solid s"
  shows "units s \<noteq> [] \<and> \<not> fst (hd (units s)) \<and> \<not> fst (last (units s))"
proof -
  have "\<not> fst (hd (units s)) \<and> units s \<noteq> []"
    using assms units_solid [of "hd s" "tl s"] by (cases s) (simp_all add: solid_def)
  moreover have "units s = units (butlast s) @ [(False, [last s])]"
    using assms units_ascii [of "last s" "butlast s" "[]"] units_solid [of "last s" "[]"]
    by (simp add: solid_def)
  ultimately show ?thesis by simp
qed

lemma TrimSpace_solid:
  assumes "solid s" "list_all blank_char a" "list_all blank_char b"
  shows "TrimSpace (a @ s @ b) = s"
proof -
  note ends = units_solid_ends [OF assms(1)]
  have drop_blanks: "dropWhile fst (map (\<lambda>c. (True, [c])) xs @ us) = us"
    if "us \<noteq> []" "\<not> fst (hd us)" for us :: "(bool \<times> string) list" and xs
    using that by (induction xs) (cases us, auto)
  have "units (a @ s @ b) = map (\<lambda>c. (True, [c])) a @ units s @ map (\<lambda>c. (True, [c])) b"
    using assms(2,3) by (simp add: units_blanks units_append_blanks)
  then have "dropWhile fst (units (a @ s @ b)) = units s @ map (\<lambda>c. (True, [c])) b"
    using ends drop_blanks [of "units s @ map (\<lambda>c. (True, [c])) b" a] by simp
  moreover have "dropWhile fst (rev (units s @ map (\<lambda>c. (True, [c])) b)) = rev (units s)"
    using ends drop_blanks [of "rev (units s)" "rev b"] by (simp add: rev_map hd_rev)
  ultimately show ?thesis by (simp add: TrimSpace_def)
qed

end
