(* ===== verification/Events.thy ===== *)
theory Events
  imports Prelude
begin

text \<open>
  Package \<^verbatim>\<open>pkg/events\<close>: the event record that the whole program passes around, its
  construction from a raw Kubernetes event (\<^verbatim>\<open>normalize.go\<close>) and the deduplicator that
  merges events with the same object and reason (\<^verbatim>\<open>dedup.go\<close>).
\<close>

section \<open>Data\<close>

record OwnerRef =
  or_Kind :: string
  or_Name :: string
  or_UID :: string

record NormalizedEvent =
  ClusterName :: string
  Namespace :: string
  InvolvedObjectKind :: string
  InvolvedObjectName :: string
  InvolvedObjectUID :: string
  OwnerChain :: "OwnerRef list"
  Reason :: string
  Message :: string
  Count :: int32
  FirstSeen :: time
  LastSeen :: time

text \<open>The fields of a Kubernetes \<^verbatim>\<open>corev1.Event\<close> that the program reads.\<close>

record corev1_Event =
  k_Namespace :: string
  k_InvolvedKind :: string
  k_InvolvedName :: string
  k_InvolvedUID :: string
  k_Reason :: string
  k_Message :: string
  k_Count :: int32
  k_FirstTimestamp :: time
  k_LastTimestamp :: time
  k_EventTime :: time

text \<open>An event with the fields that the examples vary; the others are fixed.\<close>

definition exampleEvent ::
  "string \<Rightarrow> string \<Rightarrow> string \<Rightarrow> int32 \<Rightarrow> time \<Rightarrow> time \<Rightarrow> NormalizedEvent" where
  "exampleEvent ns uid reason n t u =
     \<lparr> ClusterName = ''prod'', Namespace = ns, InvolvedObjectKind = ''Pod'',
       InvolvedObjectName = ''web'', InvolvedObjectUID = uid, OwnerChain = [],
       Reason = reason, Message = ''m'', Count = n, FirstSeen = t, LastSeen = u \<rparr>"

section \<open>Normalisation\<close>

definition normalizeMessage :: "string \<Rightarrow> string" where
  "normalizeMessage msg =
     (let msg = TrimSpace msg;
          parts = Fields msg
      in Join parts '' '')"

definition Normalize :: "string \<Rightarrow> corev1_Event \<Rightarrow> NormalizedEvent" where
  "Normalize clusterName e =
     (let firstSeen = k_FirstTimestamp e;
          lastSeen = k_LastTimestamp e;
          (firstSeen, lastSeen) =
            (if \<not> IsZero (k_EventTime e)
             then ((if IsZero firstSeen then k_EventTime e else firstSeen), k_EventTime e)
             else (firstSeen, lastSeen));
          count = (if k_Count e = 0 then 1 else k_Count e)
      in \<lparr> ClusterName = clusterName,
           Namespace = k_Namespace e,
           InvolvedObjectKind = k_InvolvedKind e,
           InvolvedObjectName = k_InvolvedName e,
           InvolvedObjectUID = k_InvolvedUID e,
           OwnerChain = [],
           Reason = k_Reason e,
           Message = normalizeMessage (k_Message e),
           Count = count,
           FirstSeen = firstSeen,
           LastSeen = lastSeen \<rparr>)"

section \<open>Deduplicator\<close>

record dedupKey =
  dk_objectUID :: string
  dk_reason :: string

type_synonym Deduplicator = "(dedupKey, NormalizedEvent) fmap"

definition NewDeduplicator :: Deduplicator where
  "NewDeduplicator = fmempty"

definition dedup_key :: "NormalizedEvent \<Rightarrow> dedupKey" where
  "dedup_key e = \<lparr> dk_objectUID = InvolvedObjectUID e, dk_reason = Reason e \<rparr>"

text \<open>The update of an existing entry; the pointer of the source is the map's entry.\<close>

definition mergeInto :: "NormalizedEvent \<Rightarrow> NormalizedEvent \<Rightarrow> NormalizedEvent" where
  "mergeInto e existing =
     (let x = existing\<lparr>Count := Count existing + Count e\<rparr>;
          x = (if Before (FirstSeen e) (FirstSeen x) then x\<lparr>FirstSeen := FirstSeen e\<rparr> else x);
          x = (if After (LastSeen e) (LastSeen x)
               then x\<lparr>LastSeen := LastSeen e, Message := Message e\<rparr> else x)
      in if OwnerChain x = [] \<and> OwnerChain e \<noteq> [] then x\<lparr>OwnerChain := OwnerChain e\<rparr> else x)"

definition Merge :: "Deduplicator \<Rightarrow> NormalizedEvent \<Rightarrow> Deduplicator \<times> NormalizedEvent \<times> bool" where
  "Merge d e =
     (case fmlookup d (dedup_key e) of
        None \<Rightarrow> (fmupd (dedup_key e) e d, e, True)
      | Some existing \<Rightarrow>
          let x = mergeInto e existing in (fmupd (dedup_key e) x d, x, False))"

definition Get :: "Deduplicator \<Rightarrow> string \<Rightarrow> string \<Rightarrow> NormalizedEvent option" where
  "Get d objectUID reason = fmlookup d \<lparr> dk_objectUID = objectUID, dk_reason = reason \<rparr>"

definition Snapshot :: "(dedupKey set \<Rightarrow> dedupKey list) \<Rightarrow> Deduplicator \<Rightarrow> NormalizedEvent list" where
  "Snapshot rng d = map (\<lambda>k. the (fmlookup d k)) (rng (fmdom' d))"

text \<open>A run of the deduplicator over a sequence of incoming events.\<close>

definition mergeAll :: "NormalizedEvent list \<Rightarrow> Deduplicator \<Rightarrow> Deduplicator" where
  "mergeAll es d = fold (\<lambda>e d. fst (Merge d e)) es d"

section \<open>Normalised messages\<close>

lemma normalizeMessage_Fields: "normalizeMessage m = Join (Fields m) '' ''"
  by (simp add: normalizeMessage_def Fields_TrimSpace)

lemma Fields_normalizeMessage: "Fields (normalizeMessage m) = Fields m"
  by (simp add: normalizeMessage_Fields Fields_Join Fields_are_clean)

text \<open>
  Normalising a message keeps its words and only its words: the result has the same
  fields, consists of white-space-free non-empty words with one blank between two of them,
  and normalising it again changes nothing.
\<close>

theorem normalizeMessage_canonical:
  "Fields (normalizeMessage m) = Fields m
   \<and> normalizeMessage (normalizeMessage m) = normalizeMessage m
   \<and> (\<exists>ws. normalizeMessage m = Join ws '' '' \<and> list_all (\<lambda>w. clean w \<and> w \<noteq> []) ws)"
  using Fields_normalizeMessage Fields_are_clean by (auto simp: normalizeMessage_Fields)

section \<open>Normalised events\<close>

lemma Normalize_simps [simp]:
  "ClusterName (Normalize c e) = c"
  "Namespace (Normalize c e) = k_Namespace e"
  "InvolvedObjectKind (Normalize c e) = k_InvolvedKind e"
  "InvolvedObjectName (Normalize c e) = k_InvolvedName e"
  "InvolvedObjectUID (Normalize c e) = k_InvolvedUID e"
  "OwnerChain (Normalize c e) = []"
  "Reason (Normalize c e) = k_Reason e"
  "Message (Normalize c e) = normalizeMessage (k_Message e)"
  by (simp_all add: Normalize_def Let_def)

section \<open>The deduplicator merges per key\<close>

lemma mergeInto_key [simp]: "dedup_key (mergeInto e x) = dedup_key x"
  by (simp add: mergeInto_def dedup_key_def Let_def)

lemma mergeInto_simps:
  "Count (mergeInto e x) = Count x + Count e"
  "FirstSeen (mergeInto e x) = min (FirstSeen x) (FirstSeen e)"
  "LastSeen (mergeInto e x) = max (LastSeen x) (LastSeen e)"
  by (auto simp: mergeInto_def Let_def)

lemma Merge_lookup:
  "fmlookup (fst (Merge d e)) k =
     (if dedup_key e = k
      then Some (case fmlookup d k of None \<Rightarrow> e | Some x \<Rightarrow> mergeInto e x)
      else fmlookup d k)"
  by (auto simp: Merge_def Let_def split: option.splits)

lemma mergeAll_Nil [simp]: "mergeAll [] d = d"
  by (simp add: mergeAll_def)

lemma mergeAll_Cons [simp]: "mergeAll (e # es) d = mergeAll es (fst (Merge d e))"
  by (simp add: mergeAll_def)

text \<open>The entry of a key depends on the events of that key only.\<close>

lemma mergeAll_lookup:
  "fmlookup (mergeAll es d) k =
     (case fmlookup d k of
        None \<Rightarrow> (case filter (\<lambda>e. dedup_key e = k) es of
                  [] \<Rightarrow> None | x # xs \<Rightarrow> Some (fold mergeInto xs x))
      | Some x \<Rightarrow> Some (fold mergeInto (filter (\<lambda>e. dedup_key e = k) es) x))"
  by (induction es arbitrary: d) (auto simp: Merge_lookup split: option.splits)

lemma fold_mergeInto_simps:
  "Count (fold mergeInto es x) = Count x + sum_list (map Count es)"
  "FirstSeen (fold mergeInto es x) = Min (set (FirstSeen x # map FirstSeen es))"
  "LastSeen (fold mergeInto es x) = Max (set (LastSeen x # map LastSeen es))"
proof (induction es arbitrary: x)
  case (Cons e es)
  { case 1 then show ?case by (simp add: Cons mergeInto_simps add.assoc) }
  { case 2 then show ?case by (cases "es = []") (simp_all add: Cons mergeInto_simps min.assoc) }
  { case 3 then show ?case by (cases "es = []") (simp_all add: Cons mergeInto_simps max.assoc) }
qed simp_all

text \<open>
  C38. After any sequence of merges into a fresh deduplicator, a key is present exactly
  when an event with that object and reason was merged, and its entry carries the sum of
  their counts (in 32-bit arithmetic), the earliest first-seen and the latest last-seen
  instant, whatever the order and whatever other keys were merged in between.
\<close>

theorem mergeAll_totals:
  "let evs = filter (\<lambda>e. InvolvedObjectUID e = u \<and> Reason e = r) es in
         case Get (mergeAll es NewDeduplicator) u r of
           None \<Rightarrow> evs = []
         | Some m \<Rightarrow> evs \<noteq> []
             \<and> Count m = sum_list (map Count evs)
             \<and> FirstSeen m = Min (FirstSeen ` set evs)
             \<and> LastSeen m = Max (LastSeen ` set evs)"
proof -
  let ?evs = "filter (\<lambda>e. InvolvedObjectUID e = u \<and> Reason e = r) es"
  have "filter (\<lambda>e. dedup_key e = \<lparr>dk_objectUID = u, dk_reason = r\<rparr>) es = ?evs"
    by (simp add: dedup_key_def)
  then have "Get (mergeAll es NewDeduplicator) u r =
      (case ?evs of [] \<Rightarrow> None | x # xs \<Rightarrow> Some (fold mergeInto xs x))"
    by (simp add: Get_def mergeAll_lookup NewDeduplicator_def)
  then show ?thesis by (cases ?evs) (simp_all add: fold_mergeInto_simps)
qed

end
