(* ===== verification/Correlation.thy ===== *)
theory Correlation
  imports Events
begin

text \<open>
  Package \<^verbatim>\<open>pkg/correlation\<close>: grouping of events by workload, the causal analysis
  within a group and the timeline (\<^verbatim>\<open>types.go\<close>, \<^verbatim>\<open>patterns.go\<close>,
  \<^verbatim>\<open>correlator.go\<close>).

  Three things are left open by the language and are arguments of the model: the order in
  which \<^verbatim>\<open>init\<close> walks \<^verbatim>\<open>causalEdges\<close> (\<open>erng\<close>), the order in which the groups
  are visited (\<open>grng\<close>), and how \<^verbatim>\<open>sort.Slice\<close> arranges events with the same
  instant (\<open>sortE\<close> and \<open>sortC\<close>, any function with the contract \<open>slice_sort\<close>).
\<close>

section \<open>Data\<close>

type_synonym GroupID = string

text \<open>The embedded struct is record extension.\<close>

record CorrelatedEvent = NormalizedEvent +
  ce_GroupID :: GroupID
  IsRootCause :: bool
  CausedBy :: string

record Timeline =
  tl_Events :: "CorrelatedEvent list"
  tl_RootCauses :: "CorrelatedEvent list"

section \<open>Patterns\<close>

definition causalEdges :: "(string, string list) fmap" where
  "causalEdges = fmap_of_list
     [ (''FailedScheduling'', [''Pending'']),
       (''ErrImagePull'', [''ImagePullBackOff'', ''BackOff'']),
       (''ImagePullBackOff'', [''BackOff'']),
       (''FailedMount'', [''BackOff'', ''Unhealthy'']),
       (''FailedAttachVolume'', [''FailedMount'']),
       (''VolumeResizeFailed'', [''FailedMount'']),
       (''Unhealthy'', [''Killing'', ''BackOff'']),
       (''Killing'', [''BackOff'']),
       (''Failed'', [''BackOff'']),
       (''OOMKilling'', [''BackOff'']),
       (''BackOff'', [''CrashLoopBackOff'']),
       (''CrashLoopBackOff'', [''FailedCreate'']),
       (''FailedCreate'', [''ScalingReplicaSet'']),
       (''ScalingReplicaSet'', []),
       (''NetworkNotReady'', [''FailedScheduling'']),
       (''NodeNotReady'', [''FailedScheduling'']) ]"

definition addEffects :: "(string, string list) fmap \<Rightarrow> string \<Rightarrow> (string, string list) fmap" where
  "addEffects idx cause =
     foldl (\<lambda>idx effect. fmupd effect (goget [] idx effect @ [cause]) idx) idx
       (goget [] causalEdges cause)"

definition causedByIndex :: "(string set \<Rightarrow> string list) \<Rightarrow> (string, string list) fmap" where
  "causedByIndex erng = foldl addEffects fmempty (erng (fmdom' causalEdges))"

fun firstSeenIn :: "string list \<Rightarrow> string set \<Rightarrow> string" where
  "firstSeenIn [] seenReasons = ''''"
| "firstSeenIn (pred # preds) seenReasons =
     (if pred \<in> seenReasons then pred else firstSeenIn preds seenReasons)"

definition knownCause :: "(string, string list) fmap \<Rightarrow> string \<Rightarrow> string set \<Rightarrow> string" where
  "knownCause idx reason seenReasons = firstSeenIn (goget [] idx reason) seenReasons"

section \<open>Grouping\<close>

definition groupIDFor :: "NormalizedEvent \<Rightarrow> GroupID" where
  "groupIDFor e =
     (if OwnerChain e \<noteq> [] then
        let root = last (OwnerChain e)
        in if or_UID root \<noteq> '''' then or_UID root else or_Kind root @ ''/'' @ or_Name root
      else if InvolvedObjectUID e \<noteq> '''' then InvolvedObjectUID e
      else InvolvedObjectKind e @ ''/'' @ InvolvedObjectName e)"

definition groupByWorkload :: "NormalizedEvent list \<Rightarrow> (GroupID, NormalizedEvent list) fmap" where
  "groupByWorkload evs =
     foldl (\<lambda>groups e. let gid = groupIDFor e in fmupd gid (goget [] groups gid @ [e]) groups) fmempty evs"

section \<open>Annotation\<close>

definition annotate :: "GroupID \<Rightarrow> string \<Rightarrow> NormalizedEvent \<Rightarrow> CorrelatedEvent" where
  "annotate gid cause e = NormalizedEvent.extend e (CorrelatedEvent.fields gid (cause = '''') cause)"

fun annotateLoop ::
  "(string, string list) fmap \<Rightarrow> GroupID \<Rightarrow> string set \<Rightarrow> NormalizedEvent list \<Rightarrow> CorrelatedEvent list" where
  "annotateLoop idx gid seenReasons [] = []"
| "annotateLoop idx gid seenReasons (e # evs) =
     annotate gid (knownCause idx (Reason e) seenReasons) e
     # annotateLoop idx gid (insert (Reason e) seenReasons) evs"

definition annotateGroup ::
  "(string, string list) fmap \<Rightarrow> GroupID \<Rightarrow> NormalizedEvent list \<Rightarrow> CorrelatedEvent list" where
  "annotateGroup idx gid evs = annotateLoop idx gid {} evs"

section \<open>Correlation\<close>

definition Correlate ::
  "(string set \<Rightarrow> string list) \<Rightarrow> (GroupID set \<Rightarrow> GroupID list)
   \<Rightarrow> (NormalizedEvent list \<Rightarrow> NormalizedEvent list) \<Rightarrow> (CorrelatedEvent list \<Rightarrow> CorrelatedEvent list)
   \<Rightarrow> NormalizedEvent list \<Rightarrow> Timeline" where
  "Correlate erng grng sortE sortC evs =
     (if evs = [] then \<lparr>tl_Events = [], tl_RootCauses = []\<rparr>
      else
        let sorted = sortE evs;
            groups = groupByWorkload sorted;
            annotated = fmmap_keys (annotateGroup (causedByIndex erng)) groups;
            all = concat (map (goget [] annotated) (grng (fmdom' annotated)));
            all = sortC all
        in \<lparr>tl_Events = all, tl_RootCauses = filter IsRootCause all\<rparr>)"

section \<open>The causal patterns\<close>

definition causes :: "string \<Rightarrow> string \<Rightarrow> bool" where
  "causes a b \<longleftrightarrow> b \<in> set (goget [] causalEdges a)"

lemma set_addEffects:
  "set (goget [] (addEffects idx c) b) = set (goget [] idx b) \<union> (if causes c b then {c} else {})"
proof -
  have "set (goget [] (foldl (\<lambda>idx effect. fmupd effect (goget [] idx effect @ [c]) idx) idx es) b)
      = set (goget [] idx b) \<union> (if b \<in> set es then {c} else {})" for es
    by (induction es arbitrary: idx) auto
  then show ?thesis by (simp add: addEffects_def causes_def)
qed

lemma causes_dom: "causes a b \<Longrightarrow> a \<in> fmdom' causalEdges"
  by (cases "fmlookup causalEdges a") (auto simp: causes_def goget_def fmdom'_iff)

lemma causedByIndex_spec:
  assumes "go_range erng"
  shows "set (goget [] (causedByIndex erng) b) = {a. causes a b}"
proof -
  have "set (goget [] (foldl addEffects fmempty cs) b) = {a \<in> set cs. causes a b}" for cs
    by (induction cs rule: rev_induct) (auto simp: set_addEffects)
  then show ?thesis
    using go_range.set_rng [OF assms] causes_dom by (auto simp: causedByIndex_def)
qed

lemma causes_nonempty: "\<not> causes '''' b"
  by (simp add: causes_def causalEdges_def goget_def fmlookup_of_list)

lemma firstSeenIn_spec:
  "'''' \<notin> set preds \<Longrightarrow>
   (firstSeenIn preds seen = '''' \<longleftrightarrow> set preds \<inter> seen = {})
   \<and> (firstSeenIn preds seen \<noteq> '''' \<longrightarrow> firstSeenIn preds seen \<in> set preds \<inter> seen)"
  by (induction preds) auto

lemma knownCause_spec:
  assumes "go_range erng"
  shows "knownCause (causedByIndex erng) r seen = '''' \<longleftrightarrow> (\<forall>a \<in> seen. \<not> causes a r)"
    and "knownCause (causedByIndex erng) r seen \<noteq> '''' \<Longrightarrow>
      causes (knownCause (causedByIndex erng) r seen) r \<and> knownCause (causedByIndex erng) r seen \<in> seen"
  using firstSeenIn_spec [of "goget [] (causedByIndex erng) r" seen] causes_nonempty
  by (auto simp: knownCause_def causedByIndex_spec [OF assms])

section \<open>Groups\<close>

lemma groupByWorkload_lookup:
  "goget [] (groupByWorkload evs) g = filter (\<lambda>e. groupIDFor e = g) evs"
  "fmdom' (groupByWorkload evs) = groupIDFor ` set evs"
  by (induction evs rule: rev_induct) (auto simp: groupByWorkload_def Let_def)

lemma annotate_simps [simp]:
  "NormalizedEvent.truncate (annotate g c e) = e" "ce_GroupID (annotate g c e) = g"
  "IsRootCause (annotate g c e) = (c = '''')" "CausedBy (annotate g c e) = c"
  "Reason (annotate g c e) = Reason e" "LastSeen (annotate g c e) = LastSeen e"
  by (simp_all add: annotate_def NormalizedEvent.defs CorrelatedEvent.defs)

text \<open>
  The annotation of the event at a position of the sorted list: its cause is looked for
  among the reasons of the earlier events of the same group.
\<close>

definition ann_at :: "(string, string list) fmap \<Rightarrow> NormalizedEvent list \<Rightarrow> nat \<Rightarrow> CorrelatedEvent" where
  "ann_at idx ss i =
     (let e = ss ! i; before = filter (\<lambda>x. groupIDFor x = groupIDFor e) (take i ss)
      in annotate (groupIDFor e) (knownCause idx (Reason e) (Reason ` set before)) e)"

lemma annotateLoop_snoc:
  "annotateLoop idx g seen (xs @ [e]) =
     annotateLoop idx g seen xs @ [annotate g (knownCause idx (Reason e) (seen \<union> Reason ` set xs)) e]"
  by (induction xs arbitrary: seen) (simp_all add: insert_commute Un_commute)

lemma ann_at_snoc:
  "i < length ss \<Longrightarrow> ann_at idx (ss @ [e]) i = ann_at idx ss i"
  "ann_at idx (ss @ [e]) (length ss) =
     annotate (groupIDFor e)
       (knownCause idx (Reason e) (Reason ` set (filter (\<lambda>x. groupIDFor x = groupIDFor e) ss))) e"
  by (simp_all add: ann_at_def Let_def nth_append)

lemma annotateGroup_ann_at:
  "annotateGroup idx g (filter (\<lambda>e. groupIDFor e = g) ss) =
     map (ann_at idx ss) (filter (\<lambda>i. groupIDFor (ss ! i) = g) [0 ..< length ss])"
proof (induction ss rule: rev_induct)
  case Nil
  then show ?case by (simp add: annotateGroup_def)
next
  case (snoc e ss)
  have "filter (\<lambda>i. groupIDFor ((ss @ [e]) ! i) = g) [0 ..< length ss] =
      filter (\<lambda>i. groupIDFor (ss ! i) = g) [0 ..< length ss]"
    by (rule filter_cong) (simp_all add: nth_append)
  moreover have "map (ann_at idx (ss @ [e])) (filter P [0 ..< length ss]) =
      map (ann_at idx ss) (filter P [0 ..< length ss])" for P
    by (simp add: ann_at_snoc)
  ultimately show ?case
    using snoc by (simp add: annotateGroup_def annotateLoop_snoc ann_at_snoc)
qed

lemma Correlate_mset:
  assumes "go_range grng" "slice_sort sortE LastSeen" "slice_sort sortC LastSeen"
  shows "mset (tl_Events (Correlate erng grng sortE sortC evs)) =
    mset (map (ann_at (causedByIndex erng) (sortE evs)) [0 ..< length evs])"
proof (cases "evs = []")
  case True
  then show ?thesis by (simp add: Correlate_def)
next
  case False
  let ?ss = "sortE evs" and ?idx = "causedByIndex erng"
  let ?gs = "grng (groupIDFor ` set ?ss)"
  have len: "length ?ss = length evs" by (rule slice_sort.length_srt [OF assms(2)])
  have gs: "distinct ?gs" "set ?gs = groupIDFor ` set ?ss"
    using go_range.distinct_rng [OF assms(1)] go_range.set_rng [OF assms(1)] by simp_all
  have look: "goget [] (fmmap_keys (annotateGroup ?idx) (groupByWorkload ?ss)) g =
      map (ann_at ?idx ?ss) (filter (\<lambda>i. groupIDFor (?ss ! i) = g) [0 ..< length ?ss])"
    if "g \<in> set ?gs" for g
  proof -
    have "g \<in> fmdom' (groupByWorkload ?ss)" using that gs(2) by (simp add: groupByWorkload_lookup)
    then obtain l where "fmlookup (groupByWorkload ?ss) g = Some l" by (auto simp: fmdom'_iff)
    then show ?thesis
      using groupByWorkload_lookup(1) [of ?ss g]
      by (simp add: goget_def annotateGroup_ann_at)
  qed
  have dom: "fmdom' (fmmap_keys f (groupByWorkload ?ss)) = groupIDFor ` set ?ss" for f :: "GroupID \<Rightarrow> NormalizedEvent list \<Rightarrow> CorrelatedEvent list"
    by (simp add: fmdom'_alt_def flip: groupByWorkload_lookup(2))
  have "mset (tl_Events (Correlate erng grng sortE sortC evs)) =
      mset (concat (map (goget [] (fmmap_keys (annotateGroup ?idx) (groupByWorkload ?ss))) ?gs))"
    using False by (simp add: Correlate_def Let_def slice_sort.mset_srt [OF assms(3)] dom)
  also have "\<dots> = mset (map (ann_at ?idx ?ss)
      (concat (map (\<lambda>g. filter (\<lambda>i. groupIDFor (?ss ! i) = g) [0 ..< length ?ss]) ?gs)))"
    by (simp add: map_concat look comp_def cong: map_cong)
  also have "\<dots> = image_mset (ann_at ?idx ?ss) (mset [0 ..< length ?ss])"
    by (subst mset_map, subst mset_concat_partition) (simp_all add: gs)
  finally show ?thesis by (simp add: len)
qed

lemma Correlate_set:
  assumes "go_range grng" "slice_sort sortE LastSeen" "slice_sort sortC LastSeen"
  shows "set (tl_Events (Correlate erng grng sortE sortC evs)) =
    ann_at (causedByIndex erng) (sortE evs) ` {..< length evs}"
  using arg_cong [OF Correlate_mset [OF assms, of erng evs], of set_mset]
  by (simp add: atLeast0LessThan)

lemma ann_at_simps [simp]:
  "NormalizedEvent.truncate (ann_at idx ss i) = ss ! i"
  "ce_GroupID (ann_at idx ss i) = groupIDFor (ss ! i)"
  "Reason (ann_at idx ss i) = Reason (ss ! i)" "LastSeen (ann_at idx ss i) = LastSeen (ss ! i)"
  "IsRootCause (ann_at idx ss i) = (CausedBy (ann_at idx ss i) = '''')"
  by (simp_all add: ann_at_def Let_def)

lemma CausedBy_ann_at:
  assumes "go_range erng" "i < length ss"
  shows "CausedBy (ann_at (causedByIndex erng) ss i) = '''' \<longleftrightarrow>
      (\<forall>j < i. groupIDFor (ss ! j) = groupIDFor (ss ! i) \<longrightarrow> \<not> causes (Reason (ss ! j)) (Reason (ss ! i)))"
    and "CausedBy (ann_at (causedByIndex erng) ss i) \<noteq> '''' \<Longrightarrow>
      \<exists>j < i. groupIDFor (ss ! j) = groupIDFor (ss ! i)
        \<and> Reason (ss ! j) = CausedBy (ann_at (causedByIndex erng) ss i)
        \<and> causes (Reason (ss ! j)) (Reason (ss ! i))"
proof -
  let ?seen = "Reason ` set (filter (\<lambda>x. groupIDFor x = groupIDFor (ss ! i)) (take i ss))"
  have seen: "r \<in> ?seen \<longleftrightarrow> (\<exists>j < i. groupIDFor (ss ! j) = groupIDFor (ss ! i) \<and> Reason (ss ! j) = r)" for r
  proof -
    have "set (take i ss) = (!) ss ` {..<i}"
      using nth_image [of i ss] assms(2) by (simp add: atLeast0LessThan)
    then show ?thesis by auto
  qed
  have cb: "CausedBy (ann_at (causedByIndex erng) ss i) = knownCause (causedByIndex erng) (Reason (ss ! i)) ?seen"
    by (simp add: ann_at_def Let_def)
  show "CausedBy (ann_at (causedByIndex erng) ss i) = '''' \<longleftrightarrow>
      (\<forall>j < i. groupIDFor (ss ! j) = groupIDFor (ss ! i) \<longrightarrow> \<not> causes (Reason (ss ! j)) (Reason (ss ! i)))"
    unfolding cb knownCause_spec(1) [OF assms(1)] Ball_def seen by auto
  show "CausedBy (ann_at (causedByIndex erng) ss i) \<noteq> '''' \<Longrightarrow>
      \<exists>j < i. groupIDFor (ss ! j) = groupIDFor (ss ! i)
        \<and> Reason (ss ! j) = CausedBy (ann_at (causedByIndex erng) ss i)
        \<and> causes (Reason (ss ! j)) (Reason (ss ! i))"
  proof -
    assume "CausedBy (ann_at (causedByIndex erng) ss i) \<noteq> ''''"
    from knownCause_spec(2) [OF assms(1) this [unfolded cb]] show ?thesis
      unfolding cb seen by auto
  qed
qed

section \<open>Properties\<close>

text \<open>The open points of the language, taken together.\<close>

definition runtime_ok ::
  "(string set \<Rightarrow> string list) \<Rightarrow> (GroupID set \<Rightarrow> GroupID list)
   \<Rightarrow> (NormalizedEvent list \<Rightarrow> NormalizedEvent list) \<Rightarrow> (CorrelatedEvent list \<Rightarrow> CorrelatedEvent list) \<Rightarrow> bool" where
  "runtime_ok erng grng sortE sortC \<longleftrightarrow>
     go_range erng \<and> go_range grng \<and> slice_sort sortE LastSeen \<and> slice_sort sortC LastSeen"

lemma runtime_okD:
  assumes "runtime_ok erng grng sortE sortC"
  shows "go_range erng" "go_range grng" "slice_sort sortE LastSeen" "slice_sort sortC LastSeen"
  using assms by (simp_all add: runtime_ok_def)

lemma runtime_ok_example:
  "runtime_ok sorted_list_of_set sorted_list_of_set (sort_key LastSeen) (sort_key LastSeen)"
  by (simp add: runtime_ok_def go_range_sorted slice_sort_sort_key)

lemma Correlate_events:
  assumes "runtime_ok erng grng sortE sortC"
  shows "mset (map NormalizedEvent.truncate (tl_Events (Correlate erng grng sortE sortC evs))) = mset evs"
    and "sorted (map LastSeen (tl_Events (Correlate erng grng sortE sortC evs)))"
    and "tl_RootCauses (Correlate erng grng sortE sortC evs) =
      filter IsRootCause (tl_Events (Correlate erng grng sortE sortC evs))"
proof -
  note ok = runtime_okD [OF assms]
  let ?tln = "Correlate erng grng sortE sortC evs"
  have "mset (map NormalizedEvent.truncate (tl_Events ?tln)) =
      mset (map (\<lambda>i. sortE evs ! i) [0 ..< length evs])"
    using arg_cong [OF Correlate_mset [OF ok(2-4), of erng evs], of "image_mset NormalizedEvent.truncate"]
    by (simp add: multiset.map_comp comp_def)
  also have "map (\<lambda>i. sortE evs ! i) [0 ..< length evs] = sortE evs"
    using map_nth [of "sortE evs"] by (simp add: slice_sort.length_srt [OF ok(3)])
  finally show "mset (map NormalizedEvent.truncate (tl_Events ?tln)) = mset evs"
    by (simp add: slice_sort.mset_srt [OF ok(3)])
  show "sorted (map LastSeen (tl_Events ?tln))"
    using slice_sort.sorted_srt [OF ok(4)] by (simp add: Correlate_def Let_def)
  show "tl_RootCauses ?tln = filter IsRootCause (tl_Events ?tln)"
    by (simp add: Correlate_def Let_def)
qed

definition cexample :: "NormalizedEvent list" where
  "cexample = [exampleEvent ''prod'' ''u1'' ''BackOff'' 1 0 20, exampleEvent ''prod'' ''u1'' ''Unhealthy'' 1 0 10]"

definition ctimeline :: Timeline where
  "ctimeline = Correlate sorted_list_of_set sorted_list_of_set (sort_key LastSeen) (sort_key LastSeen) cexample"

lemma ctimeline_eval:
  "map (\<lambda>e. (Reason e, CausedBy e, IsRootCause e)) (tl_Events ctimeline) =
     [(''Unhealthy'', '''', True), (''BackOff'', ''Unhealthy'', False)]"
  by code_simp

lemma ctimeline_member: "tl_Events ctimeline ! 1 \<in> set (tl_Events ctimeline)"
  using arg_cong [OF ctimeline_eval, of length] by (intro nth_mem) simp

text \<open>
  C9. Correlation neither loses nor invents events: the timeline is a permutation of the
  input with annotations, in chronological order, and the root causes are exactly the timeline
  events with the root-cause flag, in the same order.
\<close>

theorem Correlate_permutation:
  assumes "runtime_ok erng grng sortE sortC"
  shows "let tln = Correlate erng grng sortE sortC evs in
    mset (map NormalizedEvent.truncate (tl_Events tln)) = mset evs
    \<and> sorted (map LastSeen (tl_Events tln))
    \<and> tl_RootCauses tln = filter IsRootCause (tl_Events tln)"
  using Correlate_events [OF assms] by (simp add: Let_def)

theorem Correlate_permutation_witness:
  "runtime_ok sorted_list_of_set sorted_list_of_set (sort_key LastSeen) (sort_key LastSeen)
   \<and> mset (map NormalizedEvent.truncate (tl_Events ctimeline)) = mset cexample
   \<and> map Reason (tl_Events ctimeline) = [''Unhealthy'', ''BackOff'']"
  using Correlate_permutation [OF runtime_ok_example, of cexample] runtime_ok_example
    arg_cong [OF ctimeline_eval, of "map fst"]
  by (simp add: Let_def comp_def flip: ctimeline_def)

text \<open>
  C4. The causal annotation is sound, and complete up to simultaneous events. An event marked
  as caused names the reason of another timeline event of the same workload that is not later
  and that the pattern table lists as a cause of its own reason. An event of the same workload
  that is strictly earlier and is a listed cause always prevents the root-cause flag. The flag
  is set exactly when no cause is named.
\<close>

theorem Correlate_causality:
  assumes "runtime_ok erng grng sortE sortC"
    and "tln = Correlate erng grng sortE sortC evs" "ce \<in> set (tl_Events tln)"
  shows "ce_GroupID ce = groupIDFor (NormalizedEvent.truncate ce)
    \<and> IsRootCause ce = (CausedBy ce = '''')
    \<and> (IsRootCause ce
       \<or> (\<exists>c \<in> set (tl_Events tln). ce_GroupID c = ce_GroupID ce \<and> Reason c = CausedBy ce
            \<and> causes (Reason c) (Reason ce) \<and> LastSeen c \<le> LastSeen ce))
    \<and> ((\<exists>c \<in> set (tl_Events tln). ce_GroupID c = ce_GroupID ce
            \<and> causes (Reason c) (Reason ce) \<and> LastSeen c < LastSeen ce)
       \<longrightarrow> \<not> IsRootCause ce)"
proof -
  note ok = runtime_okD [OF assms(1)]
  let ?ss = "sortE evs" and ?ann = "ann_at (causedByIndex erng) (sortE evs)"
  have evs: "set (tl_Events tln) = ?ann ` {..< length evs}"
    using Correlate_set [OF ok(2-4)] assms(2) by simp
  have len: "length ?ss = length evs" by (rule slice_sort.length_srt [OF ok(3)])
  obtain i where i: "i < length evs" and ce: "ce = ?ann i" using assms(3) evs by auto
  note cb = CausedBy_ann_at [OF ok(1), of i ?ss, unfolded len, OF i]
  have ord: "j < i \<Longrightarrow> LastSeen (?ss ! j) \<le> LastSeen (?ss ! i)" for j
    using slice_sort.srt_order [OF ok(3), of j i evs] i by simp
  have "\<exists>c \<in> set (tl_Events tln). ce_GroupID c = ce_GroupID ce \<and> Reason c = CausedBy ce
      \<and> causes (Reason c) (Reason ce) \<and> LastSeen c \<le> LastSeen ce" if "\<not> IsRootCause ce"
  proof -
    have "CausedBy (?ann i) \<noteq> ''''" using that ce by simp
    then obtain j where "j < i" "groupIDFor (?ss ! j) = groupIDFor (?ss ! i)"
      "Reason (?ss ! j) = CausedBy ce" "causes (Reason (?ss ! j)) (Reason (?ss ! i))"
      using cb(2) ce by blast
    then show ?thesis using ord [of j] i ce unfolding evs by (intro bexI [of _ "?ann j"]) auto
  qed
  moreover have "\<not> IsRootCause ce" if c: "c \<in> set (tl_Events tln)" "ce_GroupID c = ce_GroupID ce"
    "causes (Reason c) (Reason ce)" "LastSeen c < LastSeen ce" for c
  proof -
    obtain j where j: "j < length evs" "c = ?ann j" using c(1) unfolding evs by blast
    have "\<not> i \<le> j"
      using c(4) slice_sort.srt_order [OF ok(3), of i j evs] j ce by (cases "i = j") auto
    then show ?thesis using cb(1) c(2,3) ce j by auto
  qed
  ultimately show ?thesis using ce by auto
qed

theorem Correlate_causality_witness:
  "let ce = tl_Events ctimeline ! 1 in
   CausedBy ce = ''Unhealthy'' \<and> \<not> IsRootCause ce
   \<and> (\<exists>c \<in> set (tl_Events ctimeline). ce_GroupID c = ce_GroupID ce \<and> Reason c = ''Unhealthy''
        \<and> causes (Reason c) (Reason ce) \<and> LastSeen c \<le> LastSeen ce)"
proof -
  have "CausedBy (tl_Events ctimeline ! 1) = ''Unhealthy'' \<and> \<not> IsRootCause (tl_Events ctimeline ! 1)"
    by code_simp
  with Correlate_causality [OF runtime_ok_example ctimeline_def ctimeline_member]
  show ?thesis unfolding Let_def by metis
qed

text \<open>
  C14. Every event is explained: from each timeline event a chain of listed causal steps leads
  back to a root cause of the same workload that is not later. In particular a non-empty
  timeline has a root cause.
\<close>

theorem Correlate_root_reachable:
  assumes "runtime_ok erng grng sortE sortC"
    and "tln = Correlate erng grng sortE sortC evs" "ce \<in> set (tl_Events tln)"
  shows "\<exists>rc \<in> set (tl_RootCauses tln). ce_GroupID rc = ce_GroupID ce \<and> LastSeen rc \<le> LastSeen ce
    \<and> causes\<^sup>*\<^sup>* (Reason rc) (Reason ce)"
proof -
  note ok = runtime_okD [OF assms(1)]
  let ?ss = "sortE evs" and ?ann = "ann_at (causedByIndex erng) (sortE evs)"
  have evs: "set (tl_Events tln) = ?ann ` {..< length evs}"
    using Correlate_set [OF ok(2-4)] assms(2) by simp
  have rcs: "tl_RootCauses tln = filter IsRootCause (tl_Events tln)"
    using assms(2) by (simp add: Correlate_def Let_def)
  have len: "length ?ss = length evs" by (rule slice_sort.length_srt [OF ok(3)])
  obtain i where "i < length evs" "ce = ?ann i" using assms(3) evs by auto
  moreover have "\<exists>rc \<in> set (tl_RootCauses tln). ce_GroupID rc = ce_GroupID (?ann i)
      \<and> LastSeen rc \<le> LastSeen (?ann i) \<and> causes\<^sup>*\<^sup>* (Reason rc) (Reason (?ann i))"
    if "i < length evs" for i
    using that
  proof (induction i rule: less_induct)
    case (less i)
    show ?case
    proof (cases "CausedBy (?ann i) = ''''")
      case True
      then have "?ann i \<in> set (tl_RootCauses tln)" using less.prems rcs evs by auto
      then show ?thesis by blast
    next
      case False
      then obtain j where j: "j < i" "groupIDFor (?ss ! j) = groupIDFor (?ss ! i)"
        "causes (Reason (?ss ! j)) (Reason (?ss ! i))"
        using CausedBy_ann_at(2) [OF ok(1), of i ?ss] less.prems len by auto
      have "LastSeen (?ss ! j) \<le> LastSeen (?ss ! i)"
        using slice_sort.srt_order [OF ok(3), of j i evs] j(1) less.prems by simp
      then show ?thesis
        using less.IH [OF j(1)] j less.prems
        by (fastforce intro: rtranclp.rtrancl_into_rtrancl)
    qed
  qed
  ultimately show ?thesis by blast
qed

theorem Correlate_root_reachable_witness:
  "\<exists>rc \<in> set (tl_RootCauses ctimeline). causes\<^sup>*\<^sup>* (Reason rc) ''BackOff''"
proof -
  have "Reason (tl_Events ctimeline ! 1) = ''BackOff''" by code_simp
  with Correlate_root_reachable [OF runtime_ok_example ctimeline_def ctimeline_member]
  show ?thesis by auto
qed

definition rank :: "string \<Rightarrow> nat" where
  "rank r = goget 0 (fmap_of_list
     [(''NetworkNotReady'', 0), (''NodeNotReady'', 0), (''FailedScheduling'', 1), (''Pending'', 2),
      (''ErrImagePull'', 0), (''ImagePullBackOff'', 1), (''FailedAttachVolume'', 0),
      (''VolumeResizeFailed'', 0), (''FailedMount'', 1), (''Unhealthy'', 2), (''Killing'', 3),
      (''Failed'', 0), (''OOMKilling'', 0), (''BackOff'', 4), (''CrashLoopBackOff'', 5),
      (''FailedCreate'', 6), (''ScalingReplicaSet'', 7)]) r"

lemma causes_rank: "causes a b \<Longrightarrow> rank a < rank b"
proof -
  have "list_all (\<lambda>a. list_all (\<lambda>b. rank a < rank b) (goget [] causalEdges a))
      (sorted_list_of_set (fmdom' causalEdges))"
    by code_simp
  then show "causes a b \<Longrightarrow> rank a < rank b"
    using causes_dom [of a b] by (simp add: list_all_iff causes_def)
qed

text \<open>
  C37. The pattern table has no causal cycle: its edges strictly increase a rank, so every
  causal chain is finite and no reason is, directly or indirectly, its own cause.
\<close>

theorem causes_acyclic: "\<not> causes\<^sup>+\<^sup>+ r r \<and> wfp causes"
proof -
  have "causes\<^sup>+\<^sup>+ a b \<Longrightarrow> rank a < rank b" for a b
    by (induction rule: tranclp.induct) (auto dest: causes_rank)
  then have "\<not> causes\<^sup>+\<^sup>+ r r" by blast
  moreover have "wfp causes"
    by (rule wfp_if_convertible_to_nat [of _ rank]) (rule causes_rank)
  ultimately show ?thesis ..
qed

end
