(* ===== verification/Planner.thy ===== *)
theory Planner
  imports Prelude
begin

text \<open>
  Package \<^verbatim>\<open>pkg/planner\<close>: the rule-based translation of a structured query into the
  ordered list of cluster-agent calls (\<^verbatim>\<open>query.go\<close>, \<^verbatim>\<open>step.go\<close>,
  \<^verbatim>\<open>planner.go\<close>). An error return is the left side of a sum, with the message.
\<close>

section \<open>Data\<close>

datatype Intent =
  IntentUnknown
| IntentNamespaceOverview
| IntentExplainObjectIssue
| IntentExplainRestarts
| IntentBuildTimeline

record plan_Query =
  q_ClusterName :: string
  q_Namespace :: string
  q_ObjectKind :: string
  q_ObjectName :: string
  q_Reason :: string
  q_Since :: time
  q_Limit :: go_int
  q_Intent :: Intent

type_synonym Method = string

definition MethodListEvents :: Method where "MethodListEvents = ''ListEvents''"
definition MethodGetEventsForObject :: Method where "MethodGetEventsForObject = ''GetEventsForObject''"
definition MethodGetNamespaceSummary :: Method where "MethodGetNamespaceSummary = ''GetNamespaceSummary''"
definition MethodResolveOwnerChain :: Method where "MethodResolveOwnerChain = ''ResolveOwnerChain''"
definition MethodGetObjectSnapshot :: Method where "MethodGetObjectSnapshot = ''GetObjectSnapshot''"
definition MethodGetContainerLogs :: Method where "MethodGetContainerLogs = ''GetContainerLogs''"
definition MethodGetPodMetrics :: Method where "MethodGetPodMetrics = ''GetPodMetrics''"

lemmas method_defs =
  MethodListEvents_def MethodGetEventsForObject_def MethodGetNamespaceSummary_def
  MethodResolveOwnerChain_def MethodGetObjectSnapshot_def MethodGetContainerLogs_def
  MethodGetPodMetrics_def

record Step =
  sp_Method :: Method
  sp_Namespace :: string
  sp_Kind :: string
  sp_Name :: string
  sp_Container :: string
  sp_TailLines :: int32
  sp_Reason :: string
  sp_Since :: time
  sp_Limit :: go_int

record Plan =
  pl_ClusterName :: string
  pl_Steps :: "Step list"

text \<open>A struct literal sets the named fields; the others have their zero value.\<close>

definition zeroStep :: Step where
  "zeroStep =
     \<lparr> sp_Method = '''', sp_Namespace = '''', sp_Kind = '''', sp_Name = '''', sp_Container = '''',
       sp_TailLines = 0, sp_Reason = '''', sp_Since = zero_time, sp_Limit = 0 \<rparr>"

section \<open>Intent handlers\<close>

definition namespaceOverview :: "plan_Query \<Rightarrow> Step list" where
  "namespaceOverview q =
     [ zeroStep\<lparr>sp_Method := MethodGetNamespaceSummary, sp_Namespace := q_Namespace q,
                sp_Since := q_Since q\<rparr>,
       zeroStep\<lparr>sp_Method := MethodListEvents, sp_Namespace := q_Namespace q,
                sp_Since := q_Since q, sp_Limit := q_Limit q\<rparr> ]"

definition objectStep :: "plan_Query \<Rightarrow> Method \<Rightarrow> Step" where
  "objectStep q m =
     zeroStep\<lparr>sp_Method := m, sp_Namespace := q_Namespace q,
              sp_Kind := q_ObjectKind q, sp_Name := q_ObjectName q\<rparr>"

definition explainObjectIssue :: "plan_Query \<Rightarrow> string + Step list" where
  "explainObjectIssue q =
     (if q_ObjectKind q = '''' \<or> q_ObjectName q = ''''
      then Inl ''IntentExplainObjectIssue requires ObjectKind and ObjectName''
      else Inr [ objectStep q MethodGetEventsForObject,
                 objectStep q MethodResolveOwnerChain,
                 objectStep q MethodGetObjectSnapshot ])"

definition restartReasons :: "string list" where
  "restartReasons = [''BackOff'', ''OOMKilling'', ''Failed'', ''Unhealthy'', ''FailedMount'']"

definition explainRestarts :: "plan_Query \<Rightarrow> Step list" where
  "explainRestarts q =
     zeroStep\<lparr>sp_Method := MethodGetNamespaceSummary, sp_Namespace := q_Namespace q,
              sp_Since := q_Since q\<rparr>
     # map (\<lambda>reason. zeroStep\<lparr>sp_Method := MethodListEvents, sp_Namespace := q_Namespace q,
                                sp_Reason := reason, sp_Since := q_Since q\<rparr>) restartReasons"

definition buildTimeline :: "plan_Query \<Rightarrow> Step list" where
  "buildTimeline q =
     [ zeroStep\<lparr>sp_Method := MethodListEvents, sp_Namespace := q_Namespace q,
                sp_Reason := q_Reason q, sp_Since := q_Since q, sp_Limit := q_Limit q\<rparr> ]"

definition heuristic :: "plan_Query \<Rightarrow> string + Step list" where
  "heuristic q =
     (if q_ObjectKind q \<noteq> '''' \<and> q_ObjectName q \<noteq> '''' then explainObjectIssue q
      else if q_Namespace q \<noteq> '''' then Inr (namespaceOverview q)
      else Inl ''cannot build plan: provide at least a Namespace or ObjectKind+ObjectName'')"

section \<open>Planning\<close>

definition makePlan :: "plan_Query \<Rightarrow> string + Plan" where
  "makePlan q =
     (if q_ClusterName q = '''' then Inl ''ClusterName is required''
      else
        let r = (case q_Intent q of
                   IntentNamespaceOverview \<Rightarrow> Inr (namespaceOverview q)
                 | IntentExplainObjectIssue \<Rightarrow> explainObjectIssue q
                 | IntentExplainRestarts \<Rightarrow> Inr (explainRestarts q)
                 | IntentBuildTimeline \<Rightarrow> Inr (buildTimeline q)
                 | IntentUnknown \<Rightarrow> heuristic q)
        in case r of
             Inl err \<Rightarrow> Inl err
           | Inr steps \<Rightarrow> Inr \<lparr>pl_ClusterName = q_ClusterName q, pl_Steps = steps\<rparr>)"

section \<open>Properties\<close>

lemmas planner_defs =
  makePlan_def namespaceOverview_def objectStep_def explainObjectIssue_def restartReasons_def
  explainRestarts_def buildTimeline_def heuristic_def zeroStep_def

lemma zeroStep_simps [simp]:
  "sp_Method zeroStep = ''''" "sp_Namespace zeroStep = ''''" "sp_Kind zeroStep = ''''"
  "sp_Name zeroStep = ''''" "sp_Reason zeroStep = ''''" "sp_Since zeroStep = zero_time"
  "sp_Limit zeroStep = 0" "sp_Container zeroStep = ''''" "sp_TailLines zeroStep = 0"
  by (simp_all add: zeroStep_def)

text \<open>The calls a plan can contain, with what each needs.\<close>

definition step_ok :: "plan_Query \<Rightarrow> Step \<Rightarrow> bool" where
  "step_ok q st \<longleftrightarrow>
     sp_Namespace st = q_Namespace q
     \<and> (sp_Method st \<in> {MethodListEvents, MethodGetNamespaceSummary} \<and> sp_Since st = q_Since q
          \<and> sp_Kind st = '''' \<and> sp_Name st = ''''
        \<or> sp_Method st \<in> {MethodGetEventsForObject, MethodResolveOwnerChain, MethodGetObjectSnapshot}
          \<and> sp_Kind st = q_ObjectKind q \<and> sp_Name st = q_ObjectName q
          \<and> sp_Kind st \<noteq> '''' \<and> sp_Name st \<noteq> '''')"

lemma steps_ok:
  "list_all (step_ok q) (namespaceOverview q)"
  "list_all (step_ok q) (explainRestarts q)"
  "list_all (step_ok q) (buildTimeline q)"
  "explainObjectIssue q = Inr st \<Longrightarrow> list_all (step_ok q) st \<and> st \<noteq> []"
  by (auto simp: step_ok_def namespaceOverview_def explainRestarts_def buildTimeline_def
      explainObjectIssue_def objectStep_def restartReasons_def split: if_splits)

lemma steps_nonempty:
  "namespaceOverview q \<noteq> []" "explainRestarts q \<noteq> []" "buildTimeline q \<noteq> []"
  by (simp_all add: namespaceOverview_def explainRestarts_def buildTimeline_def)

text \<open>
  C34. Every plan is executable against one agent: it names the query's non-empty cluster,
  has at least one step, and each step is either an event listing or a summary of the query's
  namespace with the query's time bound, or an object call whose kind and name are the query's
  and not empty.
\<close>

theorem plan_well_formed:
  assumes "makePlan q = Inr p"
  shows "pl_ClusterName p = q_ClusterName q \<and> pl_ClusterName p \<noteq> '''' \<and> pl_Steps p \<noteq> []
    \<and> list_all (step_ok q) (pl_Steps p)"
  using assms steps_ok steps_nonempty
  by (auto simp: makePlan_def Let_def heuristic_def split: if_splits Intent.splits sum.splits)

theorem plan_well_formed_witness:
  "let q = \<lparr>q_ClusterName = ''prod'', q_Namespace = ''payments'', q_ObjectKind = ''Pod'',
            q_ObjectName = ''web'', q_Reason = '''', q_Since = 5, q_Limit = 0, q_Intent = IntentUnknown\<rparr>
   in list_all (step_ok q) (pl_Steps (case makePlan q of Inr p \<Rightarrow> p))
      \<and> map sp_Method (pl_Steps (case makePlan q of Inr p \<Rightarrow> p)) =
          [MethodGetEventsForObject, MethodResolveOwnerChain, MethodGetObjectSnapshot]"
proof -
  let ?q = "\<lparr>q_ClusterName = ''prod'', q_Namespace = ''payments'', q_ObjectKind = ''Pod'',
            q_ObjectName = ''web'', q_Reason = '''', q_Since = 5, q_Limit = 0, q_Intent = IntentUnknown\<rparr>"
  have "makePlan ?q = Inr (case makePlan ?q of Inr p \<Rightarrow> p)" by (simp add: planner_defs)
  then show ?thesis
    using plan_well_formed [of ?q] by (simp add: Let_def) (simp add: planner_defs)
qed

text \<open>
  Planning fails exactly when a field that the intent needs is missing: the cluster name;
  the object's kind or name for an object query; for a query without a known intent, both a
  complete object and a namespace.
\<close>

theorem plan_error_iff:
  "(\<exists>err. makePlan q = Inl err) =
     (q_ClusterName q = ''''
      \<or> (let no_object = (q_ObjectKind q = '''' \<or> q_ObjectName q = '''')
         in q_Intent q = IntentExplainObjectIssue \<and> no_object
            \<or> q_Intent q = IntentUnknown \<and> no_object \<and> q_Namespace q = ''''))"
  by (auto simp: makePlan_def Let_def heuristic_def explainObjectIssue_def
      split: if_splits Intent.splits sum.splits)

text \<open>
  A restart query asks for the namespace summary first and then once for each
  restart-related reason, in a fixed order, and every reason is asked for once; the plan does
  not depend on the query's object, reason or limit.
\<close>

theorem explainRestarts_plan:
  assumes "q_ClusterName q \<noteq> ''''" "q_Intent q = IntentExplainRestarts"
  shows "\<exists>p. makePlan q = Inr p
    \<and> map sp_Method (pl_Steps p) = MethodGetNamespaceSummary # replicate 5 MethodListEvents
    \<and> map sp_Reason (tl (pl_Steps p)) = restartReasons \<and> distinct restartReasons
    \<and> list_all (\<lambda>st. sp_Limit st = 0) (pl_Steps p)"
  using assms by (simp add: makePlan_def explainRestarts_def restartReasons_def numeral_eq_Suc)

theorem explainRestarts_plan_witness:
  "\<exists>p. makePlan \<lparr>q_ClusterName = ''prod'', q_Namespace = ''a'', q_ObjectKind = '''',
          q_ObjectName = '''', q_Reason = '''', q_Since = 0, q_Limit = 7,
          q_Intent = IntentExplainRestarts\<rparr> = Inr p
     \<and> map sp_Reason (tl (pl_Steps p)) = restartReasons \<and> list_all (\<lambda>st. sp_Limit st = 0) (pl_Steps p)"
  using explainRestarts_plan [of "\<lparr>q_ClusterName = ''prod'', q_Namespace = ''a'', q_ObjectKind = '''',
          q_ObjectName = '''', q_Reason = '''', q_Since = 0, q_Limit = 7,
          q_Intent = IntentExplainRestarts\<rparr>"]
  by auto

end
