(* ===== verification/Utf8.thy ===== *)
theory Utf8
  imports Prelude
begin

text \<open>
  UTF-8 over the bytes of a string, as the standard library's package
  \<^verbatim>\<open>unicode/utf8\<close> handles it: the decoder that \<^verbatim>\<open>encoding/json\<close> applies to every string
  it reads or writes, the encoder, and the coercion that replaces each invalid byte by the
  replacement character U+FFFD. A rune is a natural number.
\<close>

section \<open>Runes\<close>

definition RuneError :: nat where
  "RuneError = 65533"

definition continuation :: "char \<Rightarrow> nat \<Rightarrow> nat \<Rightarrow> bool" where
  "continuation c lo hi \<longleftrightarrow> lo \<le> of_char c \<and> (of_char c :: nat) \<le> hi"

text \<open>The number of bytes of the rune at the front of a string; 0 when they encode none (RFC 3629).\<close>

fun rune_size :: "string \<Rightarrow> nat" where
  "rune_size [] = 0"
| "rune_size (a # s) =
     (let n = of_char a :: nat in
      if n < 128 then 1
      else if n < 194 then 0
      else if n < 224 then (case s of b # s' \<Rightarrow> if continuation b 128 191 then 2 else 0 | _ \<Rightarrow> 0)
      else if n < 240 then (case s of b # c # s' \<Rightarrow>
          if continuation b (if n = 224 then 160 else 128) (if n = 237 then 159 else 191)
             \<and> continuation c 128 191 then 3 else 0 | _ \<Rightarrow> 0)
      else if n < 245 then (case s of b # c # d # s' \<Rightarrow>
          if continuation b (if n = 240 then 144 else 128) (if n = 244 then 143 else 191)
             \<and> continuation c 128 191 \<and> continuation d 128 191 then 4 else 0 | _ \<Rightarrow> 0)
      else 0)"

text \<open>\<^verbatim>\<open>utf8.DecodeRune\<close> on a non-empty string: the rune and its width; \<open>RuneError\<close> of width 1 on invalid bytes.\<close>

fun runeVal :: "string \<Rightarrow> nat" where
  "runeVal [a] = of_char a"
| "runeVal [a, b] = (of_char a - 192) * 64 + (of_char b - 128)"
| "runeVal [a, b, c] = ((of_char a - 224) * 64 + (of_char b - 128)) * 64 + (of_char c - 128)"
| "runeVal [a, b, c, d] =
     (((of_char a - 240) * 64 + (of_char b - 128)) * 64 + (of_char c - 128)) * 64 + (of_char d - 128)"
| "runeVal _ = RuneError"

definition DecodeRune :: "string \<Rightarrow> nat \<times> nat" where
  "DecodeRune s = (let n = rune_size s in if n = 0 then (RuneError, 1) else (runeVal (take n s), n))"

text \<open>\<^verbatim>\<open>utf8.EncodeRune\<close>: a surrogate or a value out of range is written as U+FFFD.\<close>

definition valid_rune :: "nat \<Rightarrow> bool" where
  "valid_rune r \<longleftrightarrow> r < 1114112 \<and> \<not> (55296 \<le> r \<and> r < 57344)"

definition encodeScalar :: "nat \<Rightarrow> string" where
  "encodeScalar r =
     (if r < 128 then [char_of r]
      else if r < 2048 then [char_of (192 + r div 64), char_of (128 + r mod 64)]
      else if r < 65536 then
        [char_of (224 + r div 4096), char_of (128 + r div 64 mod 64), char_of (128 + r mod 64)]
      else [char_of (240 + r div 262144), char_of (128 + r div 4096 mod 64), char_of (128 + r div 64 mod 64),
            char_of (128 + r mod 64)])"

definition EncodeRune :: "nat \<Rightarrow> string" where
  "EncodeRune r = encodeScalar (if valid_rune r then r else RuneError)"

section \<open>Validity and coercion\<close>

lemma rune_size_le: "rune_size s \<le> length s"
  by (cases s) (auto simp: Let_def split: list.split)

function valid_utf8 :: "string \<Rightarrow> bool" where
  "valid_utf8 s = (if s = [] then True else if rune_size s = 0 then False else valid_utf8 (drop (rune_size s) s))"
  by auto
termination
  by (relation "measure length") auto

function toValid :: "string \<Rightarrow> string" where
  "toValid s = (if s = [] then [] else EncodeRune (fst (DecodeRune s)) @ toValid (drop (snd (DecodeRune s)) s))"
  by auto
termination
  by (relation "measure length") (auto simp: DecodeRune_def Let_def)

declare valid_utf8.simps [simp del] toValid.simps [simp del] rune_size.simps(2) [simp del]

lemma valid_utf8_Nil [simp]: "valid_utf8 []" and toValid_Nil [simp]: "toValid [] = []"
  by (simp_all add: valid_utf8.simps toValid.simps)

section \<open>The encoder inverts the decoder\<close>

lemma rune_size_split:
  assumes "rune_size s \<noteq> 0"
  obtains (1) a t where "s = a # t" "rune_size s = 1" "(of_char a :: nat) < 128"
  | (2) a b t where "s = a # b # t" "rune_size s = 2" "194 \<le> (of_char a :: nat)" "(of_char a :: nat) < 224"
      "continuation b 128 191"
  | (3) a b c t where "s = a # b # c # t" "rune_size s = 3" "224 \<le> (of_char a :: nat)" "(of_char a :: nat) < 240"
      "continuation b (if (of_char a :: nat) = 224 then 160 else 128) (if (of_char a :: nat) = 237 then 159 else 191)"
      "continuation c 128 191"
  | (4) a b c d t where "s = a # b # c # d # t" "rune_size s = 4" "240 \<le> (of_char a :: nat)" "(of_char a :: nat) < 245"
      "continuation b (if (of_char a :: nat) = 240 then 144 else 128) (if (of_char a :: nat) = 244 then 143 else 191)"
      "continuation c 128 191" "continuation d 128 191"
proof (cases s)
  case (Cons a t)
  show thesis
    using assms Cons 1 2 3 4
    by (auto simp: rune_size.simps(2) Let_def split: if_splits list.splits)
qed (use assms in simp)

lemma char_of_add: "lo \<le> (of_char c :: nat) \<Longrightarrow> char_of (lo + (of_char c - lo)) = c"
  by simp

lemma runeVal_bounds:
  assumes "rune_size s \<noteq> 0"
  shows "valid_rune (runeVal (take (rune_size s) s))"
    and "encodeScalar (runeVal (take (rune_size s) s)) = take (rune_size s) s"
proof -
  have "valid_rune (runeVal (take (rune_size s) s))
      \<and> encodeScalar (runeVal (take (rune_size s) s)) = take (rune_size s) s"
    using assms
  proof (cases rule: rune_size_split)
    case (1 a t)
    then show ?thesis by (simp add: valid_rune_def encodeScalar_def)
  next
    case (2 a b t)
    define x y where xy: "x = (of_char a :: nat) - 192" "y = (of_char b :: nat) - 128"
    have "2 \<le> x" "x < 32" "y < 64" "of_char a = 192 + x" "of_char b = 128 + y"
      using 2 by (auto simp: xy continuation_def)
    moreover from this have "a = char_of (192 + x)" "b = char_of (128 + y)" by (metis char_of_char)+
    ultimately show ?thesis
      using 2(1,2) by (simp add: valid_rune_def encodeScalar_def xy [symmetric])
  next
    case (3 a b c t)
    define x y z where xy: "x = (of_char a :: nat) - 224" "y = (of_char b :: nat) - 128" "z = (of_char c :: nat) - 128"
    have "x < 16" "y < 64" "z < 64" "of_char a = 224 + x" "of_char b = 128 + y" "of_char c = 128 + z"
      and low: "x = 0 \<longrightarrow> 32 \<le> y" and high: "x = 13 \<longrightarrow> y < 32"
      using 3 by (auto simp: xy continuation_def split: if_splits)
    moreover from this have "a = char_of (224 + x)" "b = char_of (128 + y)" "c = char_of (128 + z)"
      by (metis char_of_char)+
    moreover have "(x * 64 + y) * 64 + z < 65536" "2048 \<le> (x * 64 + y) * 64 + z"
      "((x * 64 + y) * 64 + z) div 4096 = x" "((x * 64 + y) * 64 + z) div 64 = x * 64 + y"
      using calculation by auto
    moreover have "\<not> (55296 \<le> (x * 64 + y) * 64 + z \<and> (x * 64 + y) * 64 + z < 57344)"
    proof -
      consider "x \<le> 12" | "x = 13" "y < 32" | "14 \<le> x" using high by linarith
      then show ?thesis using \<open>y < 64\<close> \<open>z < 64\<close> by cases auto
    qed
    moreover have "((x * 64 + y) * 64 + z) mod 64 = z" "(x * 64 + y) mod 64 = y"
      using \<open>y < 64\<close> \<open>z < 64\<close> by (simp_all only: mod_mult_self3 mod_less)
    ultimately show ?thesis
      using 3(1,2) by (simp add: valid_rune_def encodeScalar_def xy [symmetric])
  next
    case (4 a b c d t)
    define x y z u where xy: "x = (of_char a :: nat) - 240" "y = (of_char b :: nat) - 128"
      "z = (of_char c :: nat) - 128" "u = (of_char d :: nat) - 128"
    have "x < 5" "y < 64" "z < 64" "u < 64" "of_char a = 240 + x" "of_char b = 128 + y" "of_char c = 128 + z"
      "of_char d = 128 + u" and low: "x = 0 \<longrightarrow> 16 \<le> y" and high: "x = 4 \<longrightarrow> y < 16"
      using 4 by (auto simp: xy continuation_def split: if_splits)
    moreover from this have "a = char_of (240 + x)" "b = char_of (128 + y)" "c = char_of (128 + z)" "d = char_of (128 + u)"
      by (metis char_of_char)+
    moreover have "((x * 64 + y) * 64 + z) * 64 + u < 1114112" "65536 \<le> ((x * 64 + y) * 64 + z) * 64 + u"
      "(((x * 64 + y) * 64 + z) * 64 + u) div 262144 = x" "(((x * 64 + y) * 64 + z) * 64 + u) div 4096 = x * 64 + y"
      "(((x * 64 + y) * 64 + z) * 64 + u) div 64 = (x * 64 + y) * 64 + z"
      using calculation by auto
    moreover have "(((x * 64 + y) * 64 + z) * 64 + u) mod 64 = u" "((x * 64 + y) * 64 + z) mod 64 = z" "(x * 64 + y) mod 64 = y"
      using \<open>y < 64\<close> \<open>z < 64\<close> \<open>u < 64\<close> by (simp_all only: mod_mult_self3 mod_less)
    ultimately show ?thesis
      using 4(1,2) by (simp add: valid_rune_def encodeScalar_def xy [symmetric])
  qed
  then show "valid_rune (runeVal (take (rune_size s) s))"
    "encodeScalar (runeVal (take (rune_size s) s)) = take (rune_size s) s" by blast+
qed

lemma encode_decode:
  "rune_size s \<noteq> 0 \<Longrightarrow> EncodeRune (fst (DecodeRune s)) = take (rune_size s) s"
  "rune_size s \<noteq> 0 \<Longrightarrow> snd (DecodeRune s) = rune_size s"
  "rune_size s = 0 \<Longrightarrow> DecodeRune s = (RuneError, 1)"
  using runeVal_bounds [of s] by (simp_all add: DecodeRune_def EncodeRune_def Let_def)

text \<open>The bytes of a rune are recognised as one rune, whatever follows.\<close>

lemma of_char_of_small: "n < 256 \<Longrightarrow> of_char (char_of n :: char) = (n :: nat)"
  by (simp add: of_char_of)

lemma encodeScalar_size:
  assumes "valid_rune r"
  shows "rune_size (encodeScalar r @ s) = length (encodeScalar r)"
proof -
  consider "r < 128" | "128 \<le> r" "r < 2048" | "2048 \<le> r" "r < 65536" | "65536 \<le> r" "r < 1114112"
    using assms unfolding valid_rune_def by linarith
  then show ?thesis
  proof cases
    case 1
    then show ?thesis by (simp add: encodeScalar_def rune_size.simps(2) of_char_of_small)
  next
    case 2
    then have "2 \<le> r div 64" "r div 64 < 32" by auto
    with 2 show ?thesis
      by (simp add: encodeScalar_def rune_size.simps(2) of_char_of_small continuation_def)
  next
    case 3
    have b: "r div 4096 < 16" "r div 64 mod 64 < 64" "r mod 64 < 64" using 3 by auto
    have "r div 4096 = r div 64 div 64" by (simp add: div_mult2_eq [symmetric])
    then have "r = (r div 4096 * 64 + r div 64 mod 64) * 64 + r mod 64" by (metis mult.commute div_mult_mod_eq)
    then have "r div 4096 = 0 \<longrightarrow> 32 \<le> r div 64 mod 64" "r div 4096 = 13 \<longrightarrow> r div 64 mod 64 < 32"
      using 3 b assms by (auto simp: valid_rune_def)
    with 3 b show ?thesis
      by (auto simp: encodeScalar_def rune_size.simps(2) of_char_of_small continuation_def less_eq_Suc_le [symmetric])
  next
    case 4
    have b: "r div 262144 < 5" "r div 4096 mod 64 < 64" "r div 64 mod 64 < 64" "r mod 64 < 64" using 4 by auto
    have "r div 262144 = r div 4096 div 64" by (simp add: div_mult2_eq [symmetric])
    then have "r = (r div 262144 * 64 + r div 4096 mod 64) * 4096 + r mod 4096" by (metis mult.commute div_mult_mod_eq)
    moreover have "r mod 4096 < 4096" by simp
    ultimately have "r div 262144 = 0 \<longrightarrow> 16 \<le> r div 4096 mod 64" "r div 262144 = 4 \<longrightarrow> r div 4096 mod 64 < 16"
      using 4 b by auto
    with 4 b show ?thesis
      by (auto simp: encodeScalar_def rune_size.simps(2) of_char_of_small continuation_def less_eq_Suc_le [symmetric])
  qed
qed

lemma rune_size_take:
  assumes "rune_size s \<noteq> 0"
  shows "rune_size (take (rune_size s) s @ t) = rune_size s"
  using encodeScalar_size [OF runeVal_bounds(1) [OF assms], of t] rune_size_le [of s]
  unfolding runeVal_bounds(2) [OF assms] by simp

lemma encodeScalar_Nil [simp]: "encodeScalar r \<noteq> []"
  by (simp add: encodeScalar_def)

lemma valid_rune_RuneError: "valid_rune RuneError"
  by (simp add: valid_rune_def RuneError_def)

lemma EncodeRune_scalar: "\<exists>r'. valid_rune r' \<and> EncodeRune r = encodeScalar r'"
  by (simp add: EncodeRune_def) (metis valid_rune_RuneError)

lemma valid_utf8_EncodeRune [simp]: "valid_utf8 (EncodeRune r @ s) = valid_utf8 s"
proof -
  obtain r' where r': "valid_rune r'" "EncodeRune r = encodeScalar r'" using EncodeRune_scalar by blast
  then show ?thesis
    by (subst valid_utf8.simps) (simp add: encodeScalar_size)
qed

lemma valid_utf8_ascii [simp]: "(of_char c :: nat) < 128 \<Longrightarrow> valid_utf8 (c # s) = valid_utf8 s"
  by (subst valid_utf8.simps) (simp add: rune_size.simps(2))

lemma toValid_rune:
  "rune_size s \<noteq> 0 \<Longrightarrow> toValid s = take (rune_size s) s @ toValid (drop (rune_size s) s)"
  by (subst toValid.simps) (auto simp: encode_decode)

lemma toValid_byte:
  "rune_size (c # s) = 0 \<Longrightarrow> toValid (c # s) = EncodeRune RuneError @ toValid s"
  by (subst toValid.simps) (simp add: encode_decode)

lemma toValid_ascii [simp]: "(of_char c :: nat) < 128 \<Longrightarrow> toValid (c # s) = c # toValid s"
  using toValid_rune [of "c # s"] by (simp add: rune_size.simps(2))

lemma valid_toValid [simp]: "valid_utf8 (toValid s)"
  by (induction s rule: toValid.induct) (subst toValid.simps, simp)

lemma toValid_id [simp]: "valid_utf8 s \<Longrightarrow> toValid s = s"
proof (induction s rule: valid_utf8.induct)
  case (1 s)
  show ?case
  proof (cases "s = []")
    case False
    then have size: "rune_size s \<noteq> 0" and rest: "valid_utf8 (drop (rune_size s) s)"
      using "1.prems" by (subst (asm) valid_utf8.simps; simp split: if_splits)+
    have "toValid (drop (rune_size s) s) = drop (rune_size s) s" using "1.IH" False size rest by blast
    then show ?thesis by (simp add: toValid_rune [OF size])
  qed simp
qed

text \<open>A rune of several bytes has no ASCII byte.\<close>

lemma rune_bytes_high:
  assumes "rune_size s \<noteq> 0" "1 < rune_size s" "c \<in> set (take (rune_size s) s)"
  shows "128 \<le> (of_char c :: nat)"
  using assms(1)
  by (cases rule: rune_size_split) (use assms(2,3) in \<open>auto simp: continuation_def split: if_splits\<close>)

lemma rune_size_ascii: "rune_size (c # s) = 1 \<longleftrightarrow> (of_char c :: nat) < 128"
  by (auto simp: rune_size.simps(2) Let_def split: list.split)

end
