(* ===== verification/Json.thy ===== *)
theory Json
  imports Utf8
begin

text \<open>
  The part of the standard library's \<^verbatim>\<open>encoding/json\<close> that the coordinator uses, for the registry
  file, the request bodies, the LLM backend and the LLM's answers: the byte-wise scanner with its
  stack of open arrays and objects, the quoting and unquoting of strings, the encoder in its
  compact and its indented form, and the decoding of a value into struct fields.

  A JSON value is kept as the tree the text denotes, members in the order of the text. A number
  keeps its literal. The functions are total: an error is a value of \<open>json_error\<close>.
\<close>

datatype json =
    JNull
  | JBool bool
  | JNum string
  | JStr string
  | JArr "json list"
  | JObj "(string \<times> json) list"

text \<open>
  \<open>EOF\<close> is the error of the stream decoder on a body without a value, \<open>TypeMismatch\<close> the
  \<^verbatim>\<open>UnmarshalTypeError\<close> of a value that does not fit its field.
\<close>

datatype json_error = SyntaxError | ExceededDepth | UnexpectedEnd | EOF | TypeMismatch

section \<open>Strings\<close>

definition hexDigit :: "nat \<Rightarrow> char" where
  "hexDigit n = (if n < 10 then char_of (48 + n) else char_of (87 + n))"

text \<open>An ASCII byte in a quoted string: \<^verbatim>\<open>appendString\<close> with HTML escaping, the default of the package.\<close>

definition escapeByte :: "char \<Rightarrow> string" where
  "escapeByte c =
     (let n = of_char c :: nat in
      if c = CHR 0x22 \<or> c = CHR 0x5C then [CHR 0x5C, c]
      else if n = 8 then [CHR 0x5C, CHR ''b'']
      else if n = 12 then [CHR 0x5C, CHR ''f'']
      else if n = 10 then [CHR 0x5C, CHR ''n'']
      else if n = 13 then [CHR 0x5C, CHR ''r'']
      else if n = 9 then [CHR 0x5C, CHR ''t'']
      else if n < 32 \<or> c = CHR ''<'' \<or> c = CHR ''>'' \<or> c = CHR ''&'' then
        [CHR 0x5C, CHR ''u'', CHR ''0'', CHR ''0'', hexDigit (n div 16), hexDigit (n mod 16)]
      else [c])"

text \<open>A rune of several bytes: the line separators U+2028 and U+2029 are escaped, the others copied.\<close>

definition escapeRune :: "string \<Rightarrow> string" where
  "escapeRune bs =
     (if bs = [CHR 0xE2, CHR 0x80, CHR 0xA8] then CHR 0x5C # ''u2028''
      else if bs = [CHR 0xE2, CHR 0x80, CHR 0xA9] then CHR 0x5C # ''u2029''
      else bs)"

function quoteBody :: "string \<Rightarrow> string" where
  "quoteBody [] = []"
| "quoteBody (c # s) =
     (if (of_char c :: nat) < 128 then escapeByte c @ quoteBody s
      else if rune_size (c # s) = 0 then CHR 0x5C # ''ufffd'' @ quoteBody s
      else escapeRune (take (rune_size (c # s)) (c # s)) @ quoteBody (drop (rune_size (c # s)) (c # s)))"
  by pat_completeness auto
termination
  by (relation "measure length") auto

definition quoteString :: "string \<Rightarrow> string" where
  "quoteString s = CHR 0x22 # quoteBody s @ [CHR 0x22]"

definition isHex :: "char \<Rightarrow> bool" where
  "isHex c \<longleftrightarrow> isDigit c \<or> continuation c 97 102 \<or> continuation c 65 70"

definition hexVal :: "char \<Rightarrow> nat" where
  "hexVal c = (if isDigit c then of_char c - 48 else if continuation c 97 102 then of_char c - 87 else of_char c - 55)"

text \<open>\<^verbatim>\<open>getu4\<close>: the value of the escape \<^verbatim>\<open>\uXXXX\<close> at the front.\<close>

fun getu4 :: "string \<Rightarrow> nat option" where
  "getu4 (b # u # h1 # h2 # h3 # h4 # s) =
     (if b = CHR 0x5C \<and> u = CHR ''u'' \<and> isHex h1 \<and> isHex h2 \<and> isHex h3 \<and> isHex h4
      then Some (((hexVal h1 * 16 + hexVal h2) * 16 + hexVal h3) * 16 + hexVal h4) else None)"
| "getu4 _ = None"

definition isSurrogate :: "nat \<Rightarrow> bool" where
  "isSurrogate r \<longleftrightarrow> 55296 \<le> r \<and> r < 57344"

text \<open>\<^verbatim>\<open>utf16.DecodeRune\<close>: the rune of a surrogate pair, if the two halves are one.\<close>

definition surrogatePair :: "nat \<Rightarrow> nat option \<Rightarrow> nat option" where
  "surrogatePair r1 r2 =
     (case r2 of
        Some r2 \<Rightarrow> if 55296 \<le> r1 \<and> r1 < 56320 \<and> 56320 \<le> r2 \<and> r2 < 57344
                   then Some ((r1 - 55296) * 1024 + (r2 - 56320) + 65536) else None
      | None \<Rightarrow> None)"

definition unescapeByte :: "char \<Rightarrow> char" where
  "unescapeByte c =
     (if c = CHR ''b'' then CHR 0x08 else if c = CHR ''f'' then CHR 0x0C else if c = CHR ''n'' then CHR 0x0A
      else if c = CHR ''r'' then CHR 0x0D else if c = CHR ''t'' then CHR 0x09 else c)"

definition isEscape :: "char \<Rightarrow> bool" where
  "isEscape c \<longleftrightarrow> c = CHR 0x22 \<or> c = CHR 0x5C \<or> c = CHR ''/'' \<or> c = CHR ''b'' \<or> c = CHR ''f'' \<or> c = CHR ''n''
     \<or> c = CHR ''r'' \<or> c = CHR ''t''"

text \<open>
  \<^verbatim>\<open>unquote\<close> on the bytes between the quotes. The scanner has checked them: a backslash has
  one of the escape letters after it, or \<^verbatim>\<open>u\<close> and four hexadecimal digits, so the cases that
  stop are never reached.
\<close>

function unquote :: "string \<Rightarrow> string" where
  "unquote s =
     (if s = [] then []
      else if hd s = CHR 0x5C then
        (case getu4 s of
           Some rr \<Rightarrow>
             if isSurrogate rr then
               (case surrogatePair rr (getu4 (drop 6 s)) of
                  Some dec \<Rightarrow> EncodeRune dec @ unquote (drop 12 s)
                | None \<Rightarrow> EncodeRune RuneError @ unquote (drop 6 s))
             else EncodeRune rr @ unquote (drop 6 s)
         | None \<Rightarrow>
             (case tl s of
                [] \<Rightarrow> []
              | e # t \<Rightarrow> if isEscape e then unescapeByte e # unquote (drop 2 s) else []))
      else if (of_char (hd s) :: nat) < 128 then hd s # unquote (tl s)
      else EncodeRune (fst (DecodeRune s)) @ unquote (drop (snd (DecodeRune s)) s))"
  by pat_completeness auto
termination
  by (relation "measure length") (auto simp: DecodeRune_def Let_def)

declare unquote.simps [simp del] quoteBody.simps(2) [simp del]

text \<open>Every decoded string is valid UTF-8.\<close>

lemma isEscape_ascii: "isEscape e \<Longrightarrow> (of_char (unescapeByte e) :: nat) < 128"
  unfolding isEscape_def by (elim disjE) (simp_all add: unescapeByte_def)

lemma valid_unquote [simp]: "valid_utf8 (unquote s)"
proof (induction s rule: unquote.induct)
  case (1 s)
  then show ?case
    by (subst unquote.simps) (auto simp: isEscape_ascii split: option.split list.split)
qed

text \<open>Decoding inverts quoting, up to the replacement of invalid bytes.\<close>

lemma unquote_ascii:
  "(of_char c :: nat) < 128 \<Longrightarrow> c \<noteq> CHR 0x5C \<Longrightarrow> unquote (c # s) = c # unquote s"
  by (subst unquote.simps) simp

lemma unquote_escape:
  "isEscape e \<Longrightarrow> unquote (CHR 0x5C # e # s) = unescapeByte e # unquote s"
proof -
  assume e: "isEscape e"
  have "getu4 (CHR 0x5C # e # s) = None"
    using e by (cases "CHR 0x5C # e # s" rule: getu4.cases) (auto simp: isEscape_def)
  then show ?thesis using e by (subst unquote.simps) simp
qed

lemma unquote_u4:
  assumes "getu4 (CHR 0x5C # CHR ''u'' # h1 # h2 # h3 # h4 # s) = Some r" "\<not> isSurrogate r"
  shows "unquote (CHR 0x5C # CHR ''u'' # h1 # h2 # h3 # h4 # s) = EncodeRune r @ unquote s"
  using assms by (subst unquote.simps) (simp split: option.split)

lemma hexDigit_props:
  assumes "n < 16"
  shows "isHex (hexDigit n)" "hexVal (hexDigit n) = n"
proof -
  have "n \<in> {..<16}" using assms by simp
  also have "{..<16::nat} = set [0,1,2,3,4,5,6,7,8,9,10,11,12,13,14,15]" by (simp add: lessThan_nat_numeral lessThan_Suc) auto
  finally show "isHex (hexDigit n)" "hexVal (hexDigit n) = n"
    by (auto simp: hexDigit_def isHex_def hexVal_def isDigit_def continuation_def of_char_of)
qed

lemma unquote_rune:
  assumes "rune_size s \<noteq> 0" "1 < rune_size s"
  shows "unquote s = take (rune_size s) s @ unquote (drop (rune_size s) s)"
proof -
  obtain c t where s: "s = c # t" using assms(1) by (cases s) auto
  have c: "128 \<le> (of_char c :: nat)" using assms(2) rune_size_ascii [of c t] unfolding s by linarith
  then show ?thesis
    using encode_decode(1,2) [OF assms(1)] by (subst unquote.simps) (auto simp: s)
qed

lemma unquote_byte:
  assumes "(of_char c :: nat) < 128"
  shows "unquote (escapeByte c @ s) = c # unquote s"
proof -
  let ?n = "of_char c :: nat"
  have u4: "unquote (CHR 0x5C # CHR ''u'' # CHR ''0'' # CHR ''0'' # hexDigit (?n div 16) # hexDigit (?n mod 16) # s) = c # unquote s"
  proof -
    have "?n div 16 < 16" "?n mod 16 < 16" using assms by auto
    note h = hexDigit_props [OF this(1)] hexDigit_props [OF this(2)]
    have zero: "isHex CHR ''0''" "hexVal CHR ''0'' = 0" by (simp_all add: isHex_def hexVal_def isDigit_def)
    have val: "?n div 16 * 16 + ?n mod 16 = ?n" by presburger
    have "getu4 (CHR 0x5C # CHR ''u'' # CHR ''0'' # CHR ''0'' # hexDigit (?n div 16) # hexDigit (?n mod 16) # s) = Some ?n"
      by (simp add: h zero val)
    moreover have "\<not> isSurrogate ?n" "EncodeRune ?n = [c]"
      using assms by (simp_all add: isSurrogate_def EncodeRune_def valid_rune_def encodeScalar_def)
    ultimately show ?thesis using unquote_u4 by fastforce
  qed
  have esc: "unquote (CHR 0x5C # e # s) = c # unquote s" if "isEscape e" "unescapeByte e = c" for e
    using unquote_escape [OF that(1)] that(2) by simp
  have code: "c = d" if "?n = of_char d" for d using that by simp
  have two: "escapeByte c @ s = CHR 0x5C # e # s \<Longrightarrow> isEscape e \<Longrightarrow> unescapeByte e = c \<Longrightarrow> ?thesis" for e
    by (simp add: esc)
  consider "c = CHR 0x22" | "c = CHR 0x5C" | "c = CHR 0x08" | "c = CHR 0x0C" | "c = CHR 0x0A" | "c = CHR 0x0D" | "c = CHR 0x09"
    | "escapeByte c = [CHR 0x5C, CHR ''u'', CHR ''0'', CHR ''0'', hexDigit (?n div 16), hexDigit (?n mod 16)]"
    | "escapeByte c = [c]" "c \<noteq> CHR 0x5C"
  proof (cases "c = CHR 0x22 \<or> c = CHR 0x5C \<or> ?n = 8 \<or> ?n = 12 \<or> ?n = 10 \<or> ?n = 13 \<or> ?n = 9")
    case True
    then show thesis
      using code [of "CHR 0x08"] code [of "CHR 0x0C"] code [of "CHR 0x0A"] code [of "CHR 0x0D"] code [of "CHR 0x09"]
        that(1-7) by (elim disjE) simp_all
  next
    case False
    then have "escapeByte c = (if ?n < 32 \<or> c = CHR ''<'' \<or> c = CHR ''>'' \<or> c = CHR ''&'' then
        [CHR 0x5C, CHR ''u'', CHR ''0'', CHR ''0'', hexDigit (?n div 16), hexDigit (?n mod 16)] else [c])"
      by (simp add: escapeByte_def Let_def)
    then show thesis using that(8,9) False by argo
  qed
  then show ?thesis
  proof cases
    case 1 then show ?thesis by (intro two [of c]) (simp_all add: escapeByte_def isEscape_def unescapeByte_def)
  next
    case 2 then show ?thesis by (intro two [of c]) (simp_all add: escapeByte_def isEscape_def unescapeByte_def)
  next
    case 3 then show ?thesis by (intro two [of "CHR ''b''"]) (simp_all add: escapeByte_def isEscape_def unescapeByte_def)
  next
    case 4 then show ?thesis by (intro two [of "CHR ''f''"]) (simp_all add: escapeByte_def isEscape_def unescapeByte_def)
  next
    case 5 then show ?thesis by (intro two [of "CHR ''n''"]) (simp_all add: escapeByte_def isEscape_def unescapeByte_def)
  next
    case 6 then show ?thesis by (intro two [of "CHR ''r''"]) (simp_all add: escapeByte_def isEscape_def unescapeByte_def)
  next
    case 7 then show ?thesis by (intro two [of "CHR ''t''"]) (simp_all add: escapeByte_def isEscape_def unescapeByte_def)
  next
    case 8 then show ?thesis using u4 by simp
  next
    case 9 then show ?thesis using assms by (simp add: unquote_ascii)
  qed
qed

text \<open>The line separators, escaped by the encoder.\<close>

lemma unquote_escapeRune:
  assumes "rune_size s \<noteq> 0" "1 < rune_size s"
  shows "unquote (escapeRune (take (rune_size s) s) @ t) = take (rune_size s) s @ unquote t"
proof -
  let ?bs = "take (rune_size s) s"
  have size: "rune_size (?bs @ t) = rune_size s" by (rule rune_size_take [OF assms(1)])
  have "length ?bs = rune_size s" using rune_size_le [of s] by simp
  then have plain: "unquote (?bs @ t) = ?bs @ unquote t"
    using unquote_rune [of "?bs @ t"] assms by (simp add: size)
  have "unquote (CHR 0x5C # ''u2028'' @ t) = [CHR 0xE2, CHR 0x80, CHR 0xA8] @ unquote t"
    "unquote (CHR 0x5C # ''u2029'' @ t) = [CHR 0xE2, CHR 0x80, CHR 0xA9] @ unquote t"
  proof -
    have hex: "isHex (CHR ''2'')" "isHex (CHR ''0'')" "isHex (CHR ''8'')" "isHex (CHR ''9'')" "hexVal (CHR ''2'') = 2"
      "hexVal (CHR ''0'') = 0" "hexVal (CHR ''8'') = 8" "hexVal (CHR ''9'') = 9" by code_simp+
    have "getu4 (CHR 0x5C # ''u2028'' @ t) = Some 8232" "getu4 (CHR 0x5C # ''u2029'' @ t) = Some 8233"
      by (simp_all add: hex)
    moreover have "\<not> isSurrogate 8232" "\<not> isSurrogate 8233" by (simp_all add: isSurrogate_def)
    moreover have "EncodeRune 8232 = [CHR 0xE2, CHR 0x80, CHR 0xA8]" "EncodeRune 8233 = [CHR 0xE2, CHR 0x80, CHR 0xA9]"
      by (simp_all add: EncodeRune_def valid_rune_def encodeScalar_def char_of_def bit_0)
    ultimately show "unquote (CHR 0x5C # ''u2028'' @ t) = [CHR 0xE2, CHR 0x80, CHR 0xA8] @ unquote t"
      "unquote (CHR 0x5C # ''u2029'' @ t) = [CHR 0xE2, CHR 0x80, CHR 0xA9] @ unquote t"
      using unquote_u4 [of "CHR ''2''" "CHR ''0''" "CHR ''2''" "CHR ''8''" t 8232]
        unquote_u4 [of "CHR ''2''" "CHR ''0''" "CHR ''2''" "CHR ''9''" t 8233] by simp_all
  qed
  then show ?thesis using plain by (simp add: escapeRune_def)
qed

lemma unquote_fffd: "unquote (CHR 0x5C # ''ufffd'' @ t) = EncodeRune RuneError @ unquote t"
  by (subst unquote.simps) (simp add: isHex_def hexVal_def isDigit_def continuation_def isSurrogate_def RuneError_def)

lemma unquote_Nil [simp]: "unquote [] = []"
  by (simp add: unquote.simps)

lemma unquote_quoteBody: "unquote (quoteBody s) = toValid s"
proof (induction s rule: quoteBody.induct)
  case (2 c s)
  consider "(of_char c :: nat) < 128" | "128 \<le> (of_char c :: nat)" "rune_size (c # s) = 0"
    | "128 \<le> (of_char c :: nat)" "rune_size (c # s) \<noteq> 0" by linarith
  then show ?case
  proof cases
    case 1
    then show ?thesis using 2(1) by (simp add: quoteBody.simps(2) unquote_byte)
  next
    case 2
    then show ?thesis using "2.IH"(2) by (simp add: quoteBody.simps(2) unquote_fffd [simplified] toValid_byte)
  next
    case 3
    then have "1 < rune_size (c # s)" using rune_size_ascii [of c s] by linarith
    with 3 show ?thesis
      using "2.IH"(3) by (simp add: quoteBody.simps(2) unquote_escapeRune toValid_rune)
  qed
qed simp

section \<open>The scanner\<close>

text \<open>
  \<^verbatim>\<open>scanner.go\<close> reads one byte at a time. Its state is the step to take next and the stack of
  open arrays and objects; here the frames also carry the values read so far, which the package
  collects in a second pass. \<open>ObjectKey\<close> is an object between two members, \<open>ObjectValue\<close> one whose
  member has its key.
\<close>

datatype frame =
    ArrayValue "json list"
  | ObjectKey "(string \<times> json) list"
  | ObjectValue "(string \<times> json) list" string

datatype numState = Neg | Zero | Digits | Dot | Dot0 | Exp | ExpSign | Exp0

datatype smode =
    BeginValue
  | BeginValueOrEmpty
  | BeginString
  | BeginStringOrEmpty
  | AfterKey
  | EndValue
  | InString string
  | InStringEsc string
  | InStringEscU nat string
  | InNumber numState string
  | InWord string json
  | EndTop json
  | Failed json_error

type_synonym scanner = "smode \<times> frame list"

definition maxNestingDepth :: int where
  "maxNestingDepth = 10000"

definition isSpace :: "char \<Rightarrow> bool" where
  "isSpace c \<longleftrightarrow> c = CHR '' '' \<or> c = CHR 0x09 \<or> c = CHR 0x0D \<or> c = CHR 0x0A"

definition failScan :: "frame list \<Rightarrow> scanner" where
  "failScan st = (Failed SyntaxError, st)"

text \<open>A complete value goes to the innermost open array or object.\<close>

fun deliver :: "json \<Rightarrow> frame list \<Rightarrow> scanner" where
  "deliver v [] = (EndTop v, [])"
| "deliver v (ArrayValue vs # st) = (EndValue, ArrayValue (vs @ [v]) # st)"
| "deliver v (ObjectKey kvs # st) =
     (case v of JStr k \<Rightarrow> (AfterKey, ObjectValue kvs k # st) | _ \<Rightarrow> failScan (ObjectKey kvs # st))"
| "deliver v (ObjectValue kvs k # st) = (EndValue, ObjectKey (kvs @ [(k, v)]) # st)"

definition pushFrame :: "frame \<Rightarrow> smode \<Rightarrow> frame list \<Rightarrow> scanner" where
  "pushFrame f m st =
     (if int (length st) < maxNestingDepth then (m, f # st) else (Failed ExceededDepth, st))"

definition beginValue :: "char \<Rightarrow> frame list \<Rightarrow> scanner" where
  "beginValue c st =
     (if c = CHR ''{'' then pushFrame (ObjectKey []) BeginStringOrEmpty st
      else if c = CHR ''['' then pushFrame (ArrayValue []) BeginValueOrEmpty st
      else if c = CHR 0x22 then (InString [], st)
      else if c = CHR ''-'' then (InNumber Neg [c], st)
      else if c = CHR ''0'' then (InNumber Zero [c], st)
      else if isDigit c then (InNumber Digits [c], st)
      else if c = CHR ''t'' then (InWord ''rue'' (JBool True), st)
      else if c = CHR ''f'' then (InWord ''alse'' (JBool False), st)
      else if c = CHR ''n'' then (InWord ''ull'' JNull, st)
      else failScan st)"

fun numNext :: "numState \<Rightarrow> char \<Rightarrow> numState option" where
  "numNext Neg c = (if c = CHR ''0'' then Some Zero else if isDigit c then Some Digits else None)"
| "numNext Digits c =
     (if isDigit c then Some Digits else if c = CHR ''.'' then Some Dot
      else if c = CHR ''e'' \<or> c = CHR ''E'' then Some Exp else None)"
| "numNext Zero c = (if c = CHR ''.'' then Some Dot else if c = CHR ''e'' \<or> c = CHR ''E'' then Some Exp else None)"
| "numNext Dot c = (if isDigit c then Some Dot0 else None)"
| "numNext Dot0 c = (if isDigit c then Some Dot0 else if c = CHR ''e'' \<or> c = CHR ''E'' then Some Exp else None)"
| "numNext Exp c = (if c = CHR ''+'' \<or> c = CHR ''-'' then Some ExpSign else if isDigit c then Some Exp0 else None)"
| "numNext ExpSign c = (if isDigit c then Some Exp0 else None)"
| "numNext Exp0 c = (if isDigit c then Some Exp0 else None)"

definition numFinal :: "numState \<Rightarrow> bool" where
  "numFinal ns \<longleftrightarrow> ns = Zero \<or> ns = Digits \<or> ns = Dot0 \<or> ns = Exp0"

text \<open>The byte after a complete value: a comma or a closing bracket that fits the innermost frame.\<close>

fun endValue :: "char \<Rightarrow> frame list \<Rightarrow> scanner" where
  "endValue c (ArrayValue vs # st) =
     (if c = CHR '','' then (BeginValue, ArrayValue vs # st)
      else if c = CHR '']'' then deliver (JArr vs) st else failScan (ArrayValue vs # st))"
| "endValue c (ObjectKey kvs # st) =
     (if c = CHR '','' then (BeginString, ObjectKey kvs # st)
      else if c = CHR ''}'' then deliver (JObj kvs) st else failScan (ObjectKey kvs # st))"
| "endValue c st = failScan st"

fun afterValue :: "scanner \<Rightarrow> char \<Rightarrow> scanner" where
  "afterValue (EndTop v, st) c = (if isSpace c then (EndTop v, st) else failScan st)"
| "afterValue (EndValue, st) c = (if isSpace c then (EndValue, st) else endValue c st)"
| "afterValue (m, st) c = failScan st"

fun scan_step :: "scanner \<Rightarrow> char \<Rightarrow> scanner" where
  "scan_step (BeginValue, st) c = (if isSpace c then (BeginValue, st) else beginValue c st)"
| "scan_step (BeginValueOrEmpty, st) c =
     (if isSpace c then (BeginValueOrEmpty, st)
      else if c = CHR '']'' then endValue c st else beginValue c st)"
| "scan_step (BeginString, st) c =
     (if isSpace c then (BeginString, st) else if c = CHR 0x22 then (InString [], st) else failScan st)"
| "scan_step (BeginStringOrEmpty, st) c =
     (if isSpace c then (BeginStringOrEmpty, st) else if c = CHR ''}'' then endValue c st
      else if c = CHR 0x22 then (InString [], st) else failScan st)"
| "scan_step (AfterKey, st) c =
     (if isSpace c then (AfterKey, st) else if c = CHR '':'' then (BeginValue, st) else failScan st)"
| "scan_step (EndValue, st) c = afterValue (EndValue, st) c"
| "scan_step (EndTop v, st) c = afterValue (EndTop v, st) c"
| "scan_step (InString raw, st) c =
     (if c = CHR 0x22 then deliver (JStr (unquote raw)) st
      else if c = CHR 0x5C then (InStringEsc raw, st)
      else if (of_char c :: nat) < 32 then failScan st
      else (InString (raw @ [c]), st))"
| "scan_step (InStringEsc raw, st) c =
     (if isEscape c then (InString (raw @ [CHR 0x5C, c]), st)
      else if c = CHR ''u'' then (InStringEscU 3 (raw @ [CHR 0x5C, c]), st)
      else failScan st)"
| "scan_step (InStringEscU n raw, st) c =
     (if isHex c then (if n = 0 then InString (raw @ [c]) else InStringEscU (n - 1) (raw @ [c]), st)
      else failScan st)"
| "scan_step (InNumber ns lit, st) c =
     (case numNext ns c of
        Some ns' \<Rightarrow> (InNumber ns' (lit @ [c]), st)
      | None \<Rightarrow> if numFinal ns then afterValue (deliver (JNum lit) st) c else failScan st)"
| "scan_step (InWord w v, st) c =
     (case w of
        [] \<Rightarrow> failScan st
      | d # w' \<Rightarrow> if c = d then (if w' = [] then deliver v st else (InWord w' v, st)) else failScan st)"
| "scan_step (Failed e, st) c = (Failed e, st)"

definition feed :: "scanner \<Rightarrow> string \<Rightarrow> scanner" where
  "feed = foldl scan_step"

text \<open>A top-level value that is complete before the byte \<open>c\<close>; a number ends only there.\<close>

fun completed :: "scanner \<Rightarrow> char \<Rightarrow> json option" where
  "completed (EndTop v, st) c = Some v"
| "completed (InNumber ns lit, st) c =
     (if st = [] \<and> numFinal ns \<and> numNext ns c = None then Some (JNum lit) else None)"
| "completed _ c = None"

text \<open>The value of a whole text, the first pass of \<^verbatim>\<open>json.Unmarshal\<close>.\<close>

definition parseJSON :: "string \<Rightarrow> json_error + json" where
  "parseJSON data =
     (let s = feed (BeginValue, []) data
      in case fst s of
           Failed e \<Rightarrow> Inl e
         | _ \<Rightarrow> (case completed s (CHR '' '') of Some v \<Rightarrow> Inr v | None \<Rightarrow> Inl UnexpectedEnd))"

text \<open>
  The value at the front of a stream, which \<^verbatim>\<open>json.Decoder.Decode\<close> reads: what follows a
  complete value is left unread.
\<close>

fun firstValue :: "scanner \<Rightarrow> string \<Rightarrow> json_error + json" where
  "firstValue s [] =
     (case fst s of
        Failed e \<Rightarrow> Inl e
      | BeginValue \<Rightarrow> Inl (if snd s = [] then EOF else UnexpectedEnd)
      | _ \<Rightarrow> (case completed s (CHR '' '') of Some v \<Rightarrow> Inr v | None \<Rightarrow> Inl UnexpectedEnd))"
| "firstValue s (c # cs) =
     (case completed s c of Some v \<Rightarrow> Inr v | None \<Rightarrow> firstValue (scan_step s c) cs)"

definition decodeJSON :: "string \<Rightarrow> json_error + json" where
  "decodeJSON body = firstValue (BeginValue, []) body"

section \<open>The encoder\<close>

text \<open>
  \<open>nl d\<close> is the line break before a line at depth \<open>d\<close>, empty in the compact form, and
  \<open>colon\<close> what stands between a key and its value.
\<close>

fun render :: "(nat \<Rightarrow> string) \<Rightarrow> string \<Rightarrow> nat \<Rightarrow> json \<Rightarrow> string" where
  "render nl colon d JNull = ''null''"
| "render nl colon d (JBool b) = (if b then ''true'' else ''false'')"
| "render nl colon d (JNum lit) = lit"
| "render nl colon d (JStr s) = quoteString s"
| "render nl colon d (JArr vs) =
     (if vs = [] then ''[]''
      else ''['' @ nl (Suc d) @ Join (map (render nl colon (Suc d)) vs) ('','' @ nl (Suc d)) @ nl d @ '']'')"
| "render nl colon d (JObj kvs) =
     (if kvs = [] then ''{}''
      else ''{'' @ nl (Suc d)
        @ Join (map (\<lambda>kv. quoteString (fst kv) @ colon @ render nl colon (Suc d) (snd kv)) kvs) ('','' @ nl (Suc d))
        @ nl d @ ''}'')"

text \<open>\<^verbatim>\<open>json.Marshal\<close>, and \<^verbatim>\<open>json.MarshalIndent\<close> with no prefix and two spaces.\<close>

definition Marshal :: "json \<Rightarrow> string" where
  "Marshal v = render (\<lambda>_. '''') '':'' 0 v"

definition MarshalIndent :: "json \<Rightarrow> string" where
  "MarshalIndent v = render (\<lambda>d. CHR 0x0A # replicate (2 * d) (CHR '' '')) '': '' 0 v"

section \<open>Scanning what the encoder writes\<close>

text \<open>What a value becomes on the way through the encoder: invalid bytes of its strings are replaced.\<close>

fun normJSON :: "json \<Rightarrow> json" where
  "normJSON (JStr s) = JStr (toValid s)"
| "normJSON (JArr vs) = JArr (map normJSON vs)"
| "normJSON (JObj kvs) = JObj (map (\<lambda>kv. (toValid (fst kv), normJSON (snd kv))) kvs)"
| "normJSON v = v"

fun height :: "json \<Rightarrow> nat" where
  "height (JArr vs) = Suc (fold max (map height vs) 0)"
| "height (JObj kvs) = Suc (fold max (map (\<lambda>kv. height (snd kv)) kvs) 0)"
| "height v = 0"

text \<open>The literals of numbers.\<close>

fun numRun :: "numState \<Rightarrow> string \<Rightarrow> numState option" where
  "numRun ns [] = Some ns"
| "numRun ns (c # cs) = (case numNext ns c of Some ns' \<Rightarrow> numRun ns' cs | None \<Rightarrow> None)"

definition numLit :: "string \<Rightarrow> bool" where
  "numLit lit \<longleftrightarrow>
     (case lit of
        [] \<Rightarrow> False
      | c # cs \<Rightarrow>
          (c = CHR ''-'' \<or> isDigit c)
          \<and> (case numRun (if c = CHR ''-'' then Neg else if c = CHR ''0'' then Zero else Digits) cs of
               Some ns \<Rightarrow> numFinal ns | None \<Rightarrow> False))"

fun numsOk :: "json \<Rightarrow> bool" where
  "numsOk (JNum lit) \<longleftrightarrow> numLit lit"
| "numsOk (JArr vs) \<longleftrightarrow> list_all numsOk vs"
| "numsOk (JObj kvs) \<longleftrightarrow> list_all (\<lambda>kv. numsOk (snd kv)) kvs"
| "numsOk v \<longleftrightarrow> True"

lemma feed_simps [simp]:
  "feed s [] = s" "feed s (c # cs) = feed (scan_step s c) cs" "feed s (xs @ ys) = feed (feed s xs) ys"
  by (simp_all add: feed_def)

lemma fold_max_le: "fold max xs (a :: nat) \<le> n \<longleftrightarrow> a \<le> n \<and> (\<forall>x \<in> set xs. x \<le> n)"
  by (induction xs arbitrary: a) auto

lemma Join_Cons: "Join (x # xs) sep = x @ concat (map (\<lambda>y. sep @ y) xs)"
  by (induction xs arbitrary: x) simp_all

subsection \<open>Strings\<close>

text \<open>Bytes that the scanner takes into a string as they are.\<close>

definition plainByte :: "char \<Rightarrow> bool" where
  "plainByte c \<longleftrightarrow> c \<noteq> CHR 0x22 \<and> c \<noteq> CHR 0x5C \<and> 32 \<le> (of_char c :: nat)"

lemma feed_plain: "list_all plainByte s \<Longrightarrow> feed (InString raw, st) s = (InString (raw @ s), st)"
  by (induction s arbitrary: raw) (simp_all add: plainByte_def)

lemma feed_escape: "isEscape e \<Longrightarrow> feed (InString raw, st) [CHR 0x5C, e] = (InString (raw @ [CHR 0x5C, e]), st)"
  by simp

lemma feed_u4:
  "isHex h1 \<Longrightarrow> isHex h2 \<Longrightarrow> isHex h3 \<Longrightarrow> isHex h4 \<Longrightarrow>
   feed (InString raw, st) [CHR 0x5C, CHR ''u'', h1, h2, h3, h4] =
     (InString (raw @ [CHR 0x5C, CHR ''u'', h1, h2, h3, h4]), st)"
  by (simp add: isEscape_def)

lemma high_plain: "128 \<le> (of_char c :: nat) \<Longrightarrow> plainByte c"
  by (auto simp: plainByte_def)

lemma feed_escapeByte:
  assumes "(of_char c :: nat) < 128"
  shows "feed (InString raw, st) (escapeByte c) = (InString (raw @ escapeByte c), st)"
proof -
  let ?n = "of_char c :: nat"
  have "?n div 16 < 16" "?n mod 16 < 16" using assms by auto
  note hex = hexDigit_props(1) [OF this(1)] hexDigit_props(1) [OF this(2)]
  have zero: "isHex (CHR ''0'')" by (simp add: isHex_def isDigit_def)
  have "(\<exists>e. escapeByte c = [CHR 0x5C, e] \<and> isEscape e)
      \<or> escapeByte c = [CHR 0x5C, CHR ''u'', CHR ''0'', CHR ''0'', hexDigit (?n div 16), hexDigit (?n mod 16)]
      \<or> escapeByte c = [c] \<and> plainByte c"
    unfolding escapeByte_def Let_def plainByte_def isEscape_def by (simp add: not_less)
  then show ?thesis
    using feed_escape feed_u4 [OF zero zero hex] feed_plain [of "[c]"] by auto
qed

lemma feed_quoteBody: "feed (InString raw, st) (quoteBody s) = (InString (raw @ quoteBody s), st)"
proof (induction s arbitrary: raw rule: quoteBody.induct)
  case (2 c s)
  have hex: "isHex (CHR ''2'')" "isHex (CHR ''0'')" "isHex (CHR ''8'')" "isHex (CHR ''9'')" "isHex (CHR ''f'')" "isHex (CHR ''d'')"
    by (simp_all add: isHex_def isDigit_def continuation_def)
  consider "(of_char c :: nat) < 128" | "128 \<le> (of_char c :: nat)" "rune_size (c # s) = 0"
    | "128 \<le> (of_char c :: nat)" "rune_size (c # s) \<noteq> 0" by linarith
  then show ?case
  proof cases
    case 1
    then show ?thesis using "2.IH"(1) by (simp add: quoteBody.simps(2) feed_escapeByte)
  next
    case 2
    then show ?thesis using "2.IH"(2) by (simp add: quoteBody.simps(2) hex isEscape_def)
  next
    case 3
    then have "1 < rune_size (c # s)" using rune_size_ascii [of c s] by linarith
    then have "list_all plainByte (take (rune_size (c # s)) (c # s))"
      using rune_bytes_high [OF 3(2)] high_plain by (auto simp: list_all_iff)
    then have "feed (InString raw, st) (escapeRune (take (rune_size (c # s)) (c # s))) =
        (InString (raw @ escapeRune (take (rune_size (c # s)) (c # s))), st)" for raw
      using feed_plain by (simp add: escapeRune_def hex isEscape_def)
    with 3 show ?thesis using "2.IH"(3) by (simp add: quoteBody.simps(2))
  qed
qed simp

lemma feed_quoteString:
  "scan_step (m, st) (CHR 0x22) = (InString [], st) \<Longrightarrow> feed (m, st) (quoteString s) = deliver (JStr (toValid s)) st"
  by (simp add: quoteString_def feed_quoteBody unquote_quoteBody)

subsection \<open>Values\<close>

text \<open>A value may stand at the top level, in an array and after a key.\<close>

fun valueTop :: "frame list \<Rightarrow> bool" where
  "valueTop (ObjectKey kvs # st) = False"
| "valueTop st = True"

text \<open>
  The scanner has read the value \<open>v\<close>. It has handed it over already, except that a number may
  still go on.
\<close>

definition settled :: "scanner \<Rightarrow> json \<Rightarrow> frame list \<Rightarrow> bool" where
  "settled s v st \<longleftrightarrow> s = deliver v st \<or> (\<exists>ns lit. s = (InNumber ns lit, st) \<and> v = JNum lit \<and> numFinal ns)"

definition delimiter :: "char \<Rightarrow> bool" where
  "delimiter c \<longleftrightarrow> isSpace c \<or> c = CHR '','' \<or> c = CHR '']'' \<or> c = CHR ''}''"

lemma numNext_delimiter:
  assumes "delimiter c" "numFinal ns"
  shows "numNext ns c = None"
proof -
  have "\<not> isDigit c \<and> c \<noteq> CHR ''.'' \<and> c \<noteq> CHR ''e'' \<and> c \<noteq> CHR ''E''"
    using assms(1) unfolding delimiter_def isSpace_def by (elim disjE) (simp_all add: isDigit_def)
  then show ?thesis using assms(2) by (cases ns) (simp_all add: numFinal_def)
qed

lemma deliver_value: "valueTop st \<Longrightarrow> (\<exists>v'. deliver v st = (EndTop v', [])) \<or> (\<exists>st'. deliver v st = (EndValue, st'))"
  by (cases "(v, st)" rule: deliver.cases) simp_all

lemma settled_step:
  assumes "settled s v st" "valueTop st" "delimiter c"
  shows "scan_step s c = afterValue (deliver v st) c"
  using assms(1) deliver_value [OF assms(2), of v] numNext_delimiter [OF assms(3)]
  by (auto simp: settled_def)

lemma feed_space:
  assumes "m \<in> {BeginValue, BeginValueOrEmpty, BeginString, BeginStringOrEmpty, AfterKey, EndValue} \<or> (\<exists>v. m = EndTop v)"
    and "list_all isSpace ws"
  shows "feed (m, st) ws = (m, st)"
  using assms(2) by (induction ws) (use assms(1) in auto)

text \<open>Closing an array or an object after its last value, and going on to the next value.\<close>

lemma settled_space:
  assumes "settled s v st" "valueTop st" "list_all isSpace ws" "delimiter c"
  shows "feed s (ws @ [c]) = afterValue (deliver v st) c"
proof (cases ws)
  case Nil
  then show ?thesis using settled_step [OF assms(1,2,4)] by simp
next
  case (Cons b bs)
  have b: "isSpace b" "list_all isSpace bs" using assms(3) Cons by simp_all
  then have "scan_step s b = deliver v st"
    using settled_step [OF assms(1,2), of b] deliver_value [OF assms(2), of v] by (auto simp: delimiter_def)
  then show ?thesis
    using deliver_value [OF assms(2), of v] b(2) Cons by (auto simp: feed_space)
qed

lemma settled_array:
  assumes "settled s v (ArrayValue vs # st)" "list_all isSpace ws"
  shows "feed s (ws @ '']'') = deliver (JArr (vs @ [v])) st"
    and "feed s ('','' @ ws) = (BeginValue, ArrayValue (vs @ [v]) # st)"
proof -
  have d: "delimiter (CHR '']'')" "delimiter (CHR '','')" "\<not> isSpace (CHR '']'')" "\<not> isSpace (CHR '','')"
    by (simp_all add: delimiter_def isSpace_def)
  show "feed s (ws @ '']'') = deliver (JArr (vs @ [v])) st"
    using settled_space [OF assms(1) _ assms(2) d(1)] d(3) by simp
  show "feed s ('','' @ ws) = (BeginValue, ArrayValue (vs @ [v]) # st)"
    using settled_step [OF assms(1) _ d(2)] d(4) assms(2) by (simp add: feed_space)
qed

lemma settled_object:
  assumes "settled s v (ObjectValue kvs k # st)" "list_all isSpace ws"
  shows "feed s (ws @ ''}'') = deliver (JObj (kvs @ [(k, v)])) st"
    and "feed s ('','' @ ws) = (BeginString, ObjectKey (kvs @ [(k, v)]) # st)"
proof -
  have d: "delimiter (CHR ''}'')" "delimiter (CHR '','')" "\<not> isSpace (CHR ''}'')" "\<not> isSpace (CHR '','')"
    by (simp_all add: delimiter_def isSpace_def)
  show "feed s (ws @ ''}'') = deliver (JObj (kvs @ [(k, v)])) st"
    using settled_space [OF assms(1) _ assms(2) d(1)] d(3) by simp
  show "feed s ('','' @ ws) = (BeginString, ObjectKey (kvs @ [(k, v)]) # st)"
    using settled_step [OF assms(1) _ d(2)] d(4) assms(2) by (simp add: feed_space)
qed

lemma feed_number:
  "numRun ns cs = Some ns' \<Longrightarrow> feed (InNumber ns lit, st) cs = (InNumber ns' (lit @ cs), st)"
  by (induction cs arbitrary: ns lit) (auto split: option.splits)

text \<open>The layouts of the encoder: white space between the tokens.\<close>

locale json_layout =
  fixes nl :: "nat \<Rightarrow> string" and colon :: string
  assumes nl_space: "list_all isSpace (nl d)"
    and colon_space: "\<exists>ws. colon = CHR '':'' # ws \<and> list_all isSpace ws"
begin

lemma feed_colon: "feed (AfterKey, st) colon = (BeginValue, st)"
  using colon_space by (auto simp: isSpace_def feed_space)

text \<open>What the scanner does with the text of one value, wherever a value may stand.\<close>

definition reads :: "nat \<Rightarrow> json \<Rightarrow> bool" where
  "reads d v \<longleftrightarrow>
     (\<forall>m st. (m = BeginValue \<or> m = BeginValueOrEmpty) \<and> valueTop st \<and> int (length st + height v) \<le> maxNestingDepth \<longrightarrow>
        settled (feed (m, st) (render nl colon d v)) (normJSON v) st)"

lemma feed_elements:
  assumes "\<And>v. v \<in> set vs \<Longrightarrow> reads d v" "\<And>v. v \<in> set vs \<Longrightarrow> int (Suc (length st) + height v) \<le> maxNestingDepth"
    and "settled s v0 (ArrayValue acc # st)"
  shows "\<exists>acc' v'. acc' @ [v'] = acc @ v0 # map normJSON vs
    \<and> settled (feed s (concat (map (\<lambda>y. ('','' @ nl d) @ y) (map (render nl colon d) vs)))) v' (ArrayValue acc' # st)"
  using assms
proof (induction vs arbitrary: s v0 acc)
  case (Cons v vs)
  have "feed s ('','' @ nl d) = (BeginValue, ArrayValue (acc @ [v0]) # st)"
    by (rule settled_array(2) [OF Cons.prems(3) nl_space])
  moreover have "settled (feed (BeginValue, ArrayValue (acc @ [v0]) # st) (render nl colon d v)) (normJSON v)
      (ArrayValue (acc @ [v0]) # st)"
    using Cons.prems(1,2) [of v] by (simp add: reads_def)
  ultimately show ?case using Cons.IH [of _ "normJSON v" "acc @ [v0]"] Cons.prems(1,2) by simp
qed simp

lemma reads_array:
  assumes "\<And>v. v \<in> set vs \<Longrightarrow> reads (Suc d) v"
  shows "reads d (JArr vs)"
  unfolding reads_def
proof (intro allI impI, elim conjE)
  fix m st assume m: "m = BeginValue \<or> m = BeginValueOrEmpty" and st: "valueTop st"
    and "int (length st + height (JArr vs)) \<le> maxNestingDepth"
  then have len: "int (length st) < maxNestingDepth"
    and hs: "\<And>v. v \<in> set vs \<Longrightarrow> int (Suc (length st) + height v) \<le> maxNestingDepth"
    using fold_max_le [of "map height vs" 0 "fold max (map height vs) 0"] by fastforce+
  have open': "scan_step (m, st) (CHR ''['') = (BeginValueOrEmpty, ArrayValue [] # st)"
    using m len by (auto simp: beginValue_def pushFrame_def isSpace_def)
  show "settled (feed (m, st) (render nl colon d (JArr vs))) (normJSON (JArr vs)) st"
  proof (cases vs)
    case Nil
    then show ?thesis using open' by (simp add: settled_def isSpace_def)
  next
    case (Cons v vs')
    have first: "settled (feed (BeginValueOrEmpty, ArrayValue [] # st) (render nl colon (Suc d) v)) (normJSON v) (ArrayValue [] # st)"
      using assms [of v] hs [of v] Cons by (simp add: reads_def)
    have elems: "\<And>v. v \<in> set vs' \<Longrightarrow> reads (Suc d) v" "\<And>v. v \<in> set vs' \<Longrightarrow> int (Suc (length st) + height v) \<le> maxNestingDepth"
      using assms hs Cons by simp_all
    obtain acc' v' where rest: "acc' @ [v'] = map normJSON vs"
      "settled (feed (BeginValueOrEmpty, ArrayValue [] # st)
         (render nl colon (Suc d) v @ concat (map (\<lambda>y. ('','' @ nl (Suc d)) @ y) (map (render nl colon (Suc d)) vs'))))
         v' (ArrayValue acc' # st)"
      using feed_elements [of vs', OF elems first] Cons by auto
    have "feed (m, st) (render nl colon d (JArr vs)) = deliver (JArr (acc' @ [v'])) st"
      using settled_array(1) [OF rest(2) nl_space] open' Cons by (simp add: Join_Cons feed_space nl_space)
    then show ?thesis using rest(1) by (simp add: settled_def)
  qed
qed

abbreviation member :: "nat \<Rightarrow> string \<times> json \<Rightarrow> string" where
  "member d kv \<equiv> quoteString (fst kv) @ colon @ render nl colon d (snd kv)"

lemma feed_member:
  assumes "reads d v" "int (Suc (length st) + height v) \<le> maxNestingDepth" "m = BeginString \<or> m = BeginStringOrEmpty"
  shows "settled (feed (m, ObjectKey kvs # st) (member d (k, v))) (normJSON v) (ObjectValue kvs (toValid k) # st)"
proof -
  have "scan_step (m, ObjectKey kvs # st) (CHR 0x22) = (InString [], ObjectKey kvs # st)"
    using assms(3) by (auto simp: isSpace_def)
  then have "feed (m, ObjectKey kvs # st) (member d (k, v)) =
      feed (BeginValue, ObjectValue kvs (toValid k) # st) (render nl colon d v)"
    by (simp add: feed_quoteString feed_colon)
  then show ?thesis using assms(1,2) by (simp add: reads_def)
qed

lemma feed_members:
  assumes "\<And>kv. kv \<in> set kvs \<Longrightarrow> reads d (snd kv)"
    and "\<And>kv. kv \<in> set kvs \<Longrightarrow> int (Suc (length st) + height (snd kv)) \<le> maxNestingDepth"
    and "settled s v0 (ObjectValue acc k0 # st)"
  shows "\<exists>acc' k' v'. acc' @ [(k', v')] = acc @ (k0, v0) # map (\<lambda>kv. (toValid (fst kv), normJSON (snd kv))) kvs
    \<and> settled (feed s (concat (map (\<lambda>y. ('','' @ nl d) @ y) (map (member d) kvs)))) v' (ObjectValue acc' k' # st)"
  using assms
proof (induction kvs arbitrary: s v0 k0 acc)
  case (Cons kv kvs)
  have "feed s ('','' @ nl d) = (BeginString, ObjectKey (acc @ [(k0, v0)]) # st)"
    by (rule settled_object(2) [OF Cons.prems(3) nl_space])
  moreover have "settled (feed (BeginString, ObjectKey (acc @ [(k0, v0)]) # st) (member d kv)) (normJSON (snd kv))
      (ObjectValue (acc @ [(k0, v0)]) (toValid (fst kv)) # st)"
    using feed_member [of d "snd kv" st BeginString _ "fst kv"] Cons.prems(1,2) [of kv] by simp
  ultimately show ?case
    using Cons.IH [of _ "normJSON (snd kv)" "acc @ [(k0, v0)]" "toValid (fst kv)"] Cons.prems(1,2) by simp
qed auto

lemma reads_object:
  assumes "\<And>kv. kv \<in> set kvs \<Longrightarrow> reads (Suc d) (snd kv)"
  shows "reads d (JObj kvs)"
  unfolding reads_def
proof (intro allI impI, elim conjE)
  fix m st assume m: "m = BeginValue \<or> m = BeginValueOrEmpty" and st: "valueTop st"
    and "int (length st + height (JObj kvs)) \<le> maxNestingDepth"
  then have len: "int (length st) < maxNestingDepth"
    and hs: "\<And>kv. kv \<in> set kvs \<Longrightarrow> int (Suc (length st) + height (snd kv)) \<le> maxNestingDepth"
    using fold_max_le [of "map (\<lambda>kv. height (snd kv)) kvs" 0 "fold max (map (\<lambda>kv. height (snd kv)) kvs) 0"] by fastforce+
  have open': "scan_step (m, st) (CHR ''{'') = (BeginStringOrEmpty, ObjectKey [] # st)"
    using m len by (auto simp: beginValue_def pushFrame_def isSpace_def)
  show "settled (feed (m, st) (render nl colon d (JObj kvs))) (normJSON (JObj kvs)) st"
  proof (cases kvs)
    case Nil
    then show ?thesis using open' by (simp add: settled_def isSpace_def)
  next
    case (Cons kv kvs')
    have first: "settled (feed (BeginStringOrEmpty, ObjectKey [] # st) (member (Suc d) kv)) (normJSON (snd kv))
        (ObjectValue [] (toValid (fst kv)) # st)"
      using feed_member [of "Suc d" "snd kv" st BeginStringOrEmpty "[]" "fst kv"] assms [of kv] hs [of kv] Cons by simp
    have mems: "\<And>kv. kv \<in> set kvs' \<Longrightarrow> reads (Suc d) (snd kv)"
      "\<And>kv. kv \<in> set kvs' \<Longrightarrow> int (Suc (length st) + height (snd kv)) \<le> maxNestingDepth"
      using assms hs Cons by simp_all
    obtain acc' k' v' where rest: "acc' @ [(k', v')] = map (\<lambda>kv. (toValid (fst kv), normJSON (snd kv))) kvs"
      "settled (feed (BeginStringOrEmpty, ObjectKey [] # st)
         (member (Suc d) kv @ concat (map (\<lambda>y. ('','' @ nl (Suc d)) @ y) (map (member (Suc d)) kvs'))))
         v' (ObjectValue acc' k' # st)"
      using feed_members [of kvs', OF mems first] Cons by auto
    have "feed (m, st) (render nl colon d (JObj kvs)) = deliver (JObj (acc' @ [(k', v')])) st"
      using settled_object(1) [OF rest(2) nl_space] open' Cons by (simp add: Join_Cons feed_space nl_space)
    then show ?thesis using rest(1) by (simp add: settled_def)
  qed
qed

lemma feed_word:
  "feed (InWord (c # cs) v, st) (c # cs) = deliver v st"
  by (induction cs arbitrary: c) simp_all

lemma reads_literal:
  "reads d JNull" "reads d (JBool b)" "reads d (JStr s)"
  using feed_quoteString
  by (auto simp: reads_def settled_def isSpace_def beginValue_def isDigit_def)

lemma reads_number:
  assumes "numLit lit"
  shows "reads d (JNum lit)"
proof -
  obtain c cs ns where lit: "lit = c # cs" "c = CHR ''-'' \<or> isDigit c" "numFinal ns"
    "numRun (if c = CHR ''-'' then Neg else if c = CHR ''0'' then Zero else Digits) cs = Some ns"
    using assms by (auto simp: numLit_def split: list.splits option.splits)
  have "\<not> isSpace c \<and> c \<noteq> CHR ''{'' \<and> c \<noteq> CHR ''['' \<and> c \<noteq> CHR '']'' \<and> c \<noteq> CHR 0x22"
    using lit(2) by (auto simp: isSpace_def isDigit_def)
  then have "scan_step (m, st) c = (InNumber (if c = CHR ''-'' then Neg else if c = CHR ''0'' then Zero else Digits) [c], st)"
    if "m = BeginValue \<or> m = BeginValueOrEmpty" for m st
    using that lit(2) by (elim disjE) (simp_all add: beginValue_def)
  then show ?thesis using feed_number [OF lit(4)] lit(1,3) by (auto simp: reads_def settled_def)
qed

lemma reads_all: "numsOk v \<Longrightarrow> reads d v"
proof (induction v arbitrary: d)
  case (JArr vs)
  then show ?case by (intro reads_array) (simp add: list_all_iff)
next
  case (JObj kvs)
  then show ?case by (intro reads_object) (fastforce simp: list_all_iff snds.simps)
qed (simp_all add: reads_literal reads_number)

text \<open>The text of a value denotes this value, alone and at the front of a stream.\<close>

lemma parse_render:
  assumes "numsOk v" "int (height v) \<le> maxNestingDepth"
  shows "parseJSON (render nl colon d v) = Inr (normJSON v)"
proof -
  let ?s = "feed (BeginValue, []) (render nl colon d v)"
  have "settled ?s (normJSON v) []"
    using reads_all [OF assms(1), of d] assms(2) by (simp add: reads_def)
  then consider "?s = (EndTop (normJSON v), [])"
    | ns lit where "?s = (InNumber ns lit, [])" "normJSON v = JNum lit" "numFinal ns"
    by (auto simp: settled_def)
  then show ?thesis
    by cases (auto simp: parseJSON_def numNext_delimiter delimiter_def isSpace_def)
qed

end

interpretation compact: json_layout "\<lambda>_. ''''" "'':''"
  by unfold_locales simp_all

interpretation indented: json_layout "\<lambda>d. CHR 0x0A # replicate (2 * d) (CHR '' '')" "'': ''"
  by unfold_locales (simp_all add: isSpace_def list_all_iff)

section \<open>Streams\<close>

lemma feed_Failed [simp]: "feed (Failed e, st) cs = (Failed e, st)"
  by (induction cs) simp_all

lemma feed_EndTop: "feed (EndTop v', st') cs = (m, st) \<Longrightarrow> \<not> (\<exists>e. m = Failed e) \<Longrightarrow> m = EndTop v'"
  by (induction cs) (auto simp: failScan_def split: if_splits)

lemma completed_step:
  assumes "completed s c = Some v"
  shows "scan_step s c = afterValue (EndTop v, snd s) c"
proof (cases s)
  case (Pair m st)
  show ?thesis using assms unfolding Pair by (cases m) (auto split: if_splits)
qed

lemma completed_feed:
  assumes "completed s c = Some v" "completed (feed s (c # cs)) d = Some v'"
  shows "v' = v"
proof -
  obtain m st where f: "feed s (c # cs) = (m, st)" by (cases "feed s (c # cs)")
  have "\<not> (\<exists>e. m = Failed e)" using assms(2) f by auto
  moreover from this have "feed (EndTop v, snd s) cs = (m, st)"
    using f completed_step [OF assms(1)] by (auto simp: failScan_def split: if_splits)
  ultimately have "m = EndTop v" using feed_EndTop by blast
  then show ?thesis using assms(2) f by simp
qed

text \<open>
  A complete value at the front of a stream is decoded, and what follows it is not looked at.
  For a number, the next byte decides that it is complete.
\<close>

lemma firstValue_complete:
  assumes "completed (feed s xs) (if rest = [] then CHR '' '' else hd rest) = Some v"
  shows "firstValue s (xs @ rest) = Inr v"
  using assms
proof (induction xs arbitrary: s)
  case Nil
  show ?case
  proof (cases rest)
    case Nil
    then show ?thesis using \<open>completed (feed s []) _ = Some v\<close> by (cases s) (auto split: smode.split if_splits)
  next
    case (Cons c cs)
    then show ?thesis using \<open>completed (feed s []) _ = Some v\<close> by simp
  qed
next
  case (Cons c xs)
  show ?case
  proof (cases "completed s c")
    case None
    then show ?thesis using Cons by simp
  next
    case (Some v')
    then show ?thesis using completed_feed [OF Some Cons.prems] by simp
  qed
qed

context json_layout
begin

lemma decode_render:
  assumes "numsOk v" "int (height v) \<le> maxNestingDepth" "\<not> (\<exists>lit. v = JNum lit)"
  shows "decodeJSON (render nl colon d v @ rest) = Inr (normJSON v)"
proof -
  have "settled (feed (BeginValue, []) (render nl colon d v)) (normJSON v) []"
    using reads_all [OF assms(1), of d] assms(2) by (simp add: reads_def)
  then have "feed (BeginValue, []) (render nl colon d v) = (EndTop (normJSON v), [])"
    using assms(3) by (cases v) (auto simp: settled_def)
  then show ?thesis unfolding decodeJSON_def by (intro firstValue_complete) simp
qed

end

section \<open>Decoding into Go values\<close>

text \<open>
  A decoder takes the value a field has and the JSON value for it. \<^verbatim>\<open>null\<close> leaves a string, an
  integer or a struct as it is and makes a map nil; a value of another kind is a type error.
\<close>

definition decString :: "string \<Rightarrow> json \<Rightarrow> json_error + string" where
  "decString old v = (case v of JStr s \<Rightarrow> Inr s | JNull \<Rightarrow> Inr old | _ \<Rightarrow> Inl TypeMismatch)"

definition decInt :: "go_int \<Rightarrow> json \<Rightarrow> json_error + go_int" where
  "decInt old v =
     (case v of
        JNum lit \<Rightarrow> (case Atoi lit of Some n \<Rightarrow> Inr n | None \<Rightarrow> Inl TypeMismatch)
      | JNull \<Rightarrow> Inr old
      | _ \<Rightarrow> Inl TypeMismatch)"

fun foldErr :: "('r \<Rightarrow> 'a \<Rightarrow> 'e + 'r) \<Rightarrow> 'r \<Rightarrow> 'a list \<Rightarrow> 'e + 'r" where
  "foldErr f r [] = Inr r"
| "foldErr f r (x # xs) = (case f r x of Inl e \<Rightarrow> Inl e | Inr r' \<Rightarrow> foldErr f r' xs)"

text \<open>\<^verbatim>\<open>map[string]string\<close>: the members are added to the map, each starting from the empty string.\<close>

definition decStringMap :: "(string, string) fmap \<Rightarrow> json \<Rightarrow> json_error + (string, string) fmap" where
  "decStringMap old v =
     (case v of
        JObj kvs \<Rightarrow>
          foldErr (\<lambda>m kv. case decString '''' (snd kv) of Inl e \<Rightarrow> Inl e | Inr s \<Rightarrow> Inr (fmupd (fst kv) s m)) old kvs
      | JNull \<Rightarrow> Inr fmempty
      | _ \<Rightarrow> Inl TypeMismatch)"

text \<open>
  \<^verbatim>\<open>foldName\<close>, the comparison of keys that ignores case. Of the runes beyond ASCII only U+017F
  and U+212A fold to ASCII letters, S and K; the others fold to runes that no field name has.
\<close>

definition upperByte :: "char \<Rightarrow> char" where
  "upperByte c = (if continuation c 97 122 then char_of (of_char c - 32 :: nat) else c)"

function foldName :: "string \<Rightarrow> string" where
  "foldName s =
     (if s = [] then []
      else if take 2 s = [CHR 0xC5, CHR 0xBF] then CHR ''S'' # foldName (drop 2 s)
      else if take 3 s = [CHR 0xE2, CHR 0x84, CHR 0xAA] then CHR ''K'' # foldName (drop 3 s)
      else upperByte (hd s) # foldName (tl s))"
  by pat_completeness auto
termination
  by (relation "measure length") auto

declare foldName.simps [simp del]

type_synonym 'r fields = "(string \<times> ('r \<Rightarrow> json \<Rightarrow> json_error + 'r)) list"

definition findField :: "'r fields \<Rightarrow> string \<Rightarrow> ('r \<Rightarrow> json \<Rightarrow> json_error + 'r) option" where
  "findField fs k =
     (case map_of fs k of
        Some f \<Rightarrow> Some f
      | None \<Rightarrow> map_option snd (find (\<lambda>f. foldName (fst f) = foldName k) fs))"

definition decMember :: "'r fields \<Rightarrow> 'r \<Rightarrow> string \<times> json \<Rightarrow> json_error + 'r" where
  "decMember fs r kv = (case findField fs (fst kv) of None \<Rightarrow> Inr r | Some f \<Rightarrow> f r (snd kv))"

definition decStruct :: "'r fields \<Rightarrow> 'r \<Rightarrow> json \<Rightarrow> json_error + 'r" where
  "decStruct fs r v =
     (case v of JObj kvs \<Rightarrow> foldErr (decMember fs) r kvs | JNull \<Rightarrow> Inr r | _ \<Rightarrow> Inl TypeMismatch)"

text \<open>A field of a struct: how to read it, how to set it and how to decode it.\<close>

definition field :: "('r \<Rightarrow> 'a) \<Rightarrow> ('a \<Rightarrow> 'r \<Rightarrow> 'r) \<Rightarrow> ('a \<Rightarrow> json \<Rightarrow> json_error + 'a) \<Rightarrow> 'r \<Rightarrow> json \<Rightarrow> json_error + 'r" where
  "field get upd dec r v = (case dec (get r) v of Inl e \<Rightarrow> Inl e | Inr x \<Rightarrow> Inr (upd x r))"

text \<open>\<^verbatim>\<open>json.Unmarshal\<close> and \<^verbatim>\<open>json.NewDecoder(r).Decode\<close> into a value with decoder \<open>dec\<close>.\<close>

definition Unmarshal :: "(json \<Rightarrow> json_error + 'r) \<Rightarrow> string \<Rightarrow> json_error + 'r" where
  "Unmarshal dec data = (case parseJSON data of Inl e \<Rightarrow> Inl e | Inr v \<Rightarrow> dec v)"

definition Decode :: "(json \<Rightarrow> json_error + 'r) \<Rightarrow> string \<Rightarrow> json_error + 'r" where
  "Decode dec body = (case decodeJSON body of Inl e \<Rightarrow> Inl e | Inr v \<Rightarrow> dec v)"

section \<open>Facts the users of the package rely on\<close>

lemma Unmarshal_indented:
  "numsOk v \<Longrightarrow> int (height v) \<le> maxNestingDepth \<Longrightarrow> Unmarshal dec (MarshalIndent v) = dec (normJSON v)"
  by (simp add: Unmarshal_def MarshalIndent_def indented.parse_render)

lemma Decode_compact:
  "numsOk v \<Longrightarrow> int (height v) \<le> maxNestingDepth \<Longrightarrow> \<not> (\<exists>lit. v = JNum lit) \<Longrightarrow>
   Decode dec (Marshal v @ rest) = dec (normJSON v)"
  by (simp add: Decode_def Marshal_def compact.decode_render)

lemma foldErr_append: "foldErr f r (xs @ ys) = (case foldErr f r xs of Inl e \<Rightarrow> Inl e | Inr r' \<Rightarrow> foldErr f r' ys)"
  by (induction xs arbitrary: r) (auto split: sum.split)

text \<open>An invariant of the value that every field keeps holds of a decoded struct.\<close>

lemma foldErr_invariant:
  assumes "foldErr f r xs = Inr r'" "P r" "\<And>r x r'. P r \<Longrightarrow> x \<in> set xs \<Longrightarrow> f r x = Inr r' \<Longrightarrow> P r'"
  shows "P r'"
  using assms
proof (induction xs arbitrary: r)
  case (Cons x xs)
  obtain r1 where r1: "f r x = Inr r1" "foldErr f r1 xs = Inr r'" using Cons.prems(1) by (cases "f r x") simp_all
  have "P r1" using Cons.prems(3) [OF Cons.prems(2) _ r1(1)] by simp
  then show ?case by (rule Cons.IH [OF r1(2)]) (use Cons.prems(3) in \<open>meson list.set_intros(2)\<close>)
qed simp

text \<open>The strings of a scanned value.\<close>

fun utf8JSON :: "json \<Rightarrow> bool" where
  "utf8JSON (JStr s) \<longleftrightarrow> valid_utf8 s"
| "utf8JSON (JArr vs) \<longleftrightarrow> list_all utf8JSON vs"
| "utf8JSON (JObj kvs) \<longleftrightarrow> list_all (\<lambda>kv. valid_utf8 (fst kv) \<and> utf8JSON (snd kv)) kvs"
| "utf8JSON v \<longleftrightarrow> True"

fun utf8Frame :: "frame \<Rightarrow> bool" where
  "utf8Frame (ArrayValue vs) \<longleftrightarrow> list_all utf8JSON vs"
| "utf8Frame (ObjectKey kvs) \<longleftrightarrow> list_all (\<lambda>kv. valid_utf8 (fst kv) \<and> utf8JSON (snd kv)) kvs"
| "utf8Frame (ObjectValue kvs k) \<longleftrightarrow> list_all (\<lambda>kv. valid_utf8 (fst kv) \<and> utf8JSON (snd kv)) kvs \<and> valid_utf8 k"

fun utf8Scanner :: "scanner \<Rightarrow> bool" where
  "utf8Scanner (EndTop v, st) \<longleftrightarrow> utf8JSON v \<and> list_all utf8Frame st"
| "utf8Scanner (InWord w v, st) \<longleftrightarrow> utf8JSON v \<and> list_all utf8Frame st"
| "utf8Scanner (m, st) \<longleftrightarrow> list_all utf8Frame st"

lemma utf8Scanner_frames: "utf8Scanner (m, st) \<Longrightarrow> list_all utf8Frame st"
  by (cases m) simp_all

lemma deliver_utf8: "utf8JSON v \<Longrightarrow> list_all utf8Frame st \<Longrightarrow> utf8Scanner (deliver v st)"
  by (cases "(v, st)" rule: deliver.cases) (auto simp: failScan_def split: json.split)

lemma endValue_utf8: "list_all utf8Frame st \<Longrightarrow> utf8Scanner (endValue c st)"
  by (cases "(c, st)" rule: endValue.cases) (simp_all add: failScan_def deliver_utf8)

lemma afterValue_utf8: "utf8Scanner s \<Longrightarrow> utf8Scanner (afterValue s c)"
  by (cases "(s, c)" rule: afterValue.cases) (simp_all add: failScan_def endValue_utf8)

lemma beginValue_utf8: "list_all utf8Frame st \<Longrightarrow> utf8Scanner (beginValue c st)"
  by (simp add: beginValue_def pushFrame_def failScan_def)

lemma scan_step_utf8: "utf8Scanner s \<Longrightarrow> utf8Scanner (scan_step s c)"
proof (cases s)
  case (Pair m st)
  assume "utf8Scanner s"
  then have st: "list_all utf8Frame st" and s: "utf8Scanner (m, st)" using utf8Scanner_frames unfolding Pair by blast+
  show ?thesis
    unfolding Pair using s st
    by (cases m) (auto simp: failScan_def beginValue_utf8 endValue_utf8 afterValue_utf8 deliver_utf8
        simp del: afterValue.simps split: option.split list.split)
qed

lemma completed_utf8: "utf8Scanner s \<Longrightarrow> completed s c = Some v \<Longrightarrow> utf8JSON v"
  by (cases "(s, c)" rule: completed.cases) (auto split: if_splits)

lemma firstValue_utf8: "firstValue s cs = Inr v \<Longrightarrow> utf8Scanner s \<Longrightarrow> utf8JSON v"
proof (induction cs arbitrary: s)
  case Nil
  then show ?case by (auto split: smode.splits option.splits if_splits dest: completed_utf8)
next
  case (Cons c cs)
  show ?case
  proof (cases "completed s c")
    case None
    then show ?thesis using Cons.prems Cons.IH [OF _ scan_step_utf8] by simp
  next
    case (Some v')
    then show ?thesis using Cons.prems completed_utf8 by simp
  qed
qed

lemma feed_utf8: "utf8Scanner s \<Longrightarrow> utf8Scanner (feed s cs)"
  by (induction cs arbitrary: s) (simp_all add: scan_step_utf8)

text \<open>Whatever the bytes, the strings of a decoded value are valid UTF-8.\<close>

lemma decodeJSON_utf8: "decodeJSON body = Inr v \<Longrightarrow> utf8JSON v"
  unfolding decodeJSON_def by (erule firstValue_utf8) simp

lemma parseJSON_utf8: "parseJSON data = Inr v \<Longrightarrow> utf8JSON v"
  using feed_utf8 [of "(BeginValue, [])" data]
  by (auto simp: parseJSON_def Let_def split: smode.splits option.splits dest: completed_utf8)

text \<open>Members that no field has are skipped.\<close>

lemma findField_None:
  "(\<And>f. f \<in> set fs \<Longrightarrow> foldName (fst f) \<noteq> foldName k) \<Longrightarrow> findField fs k = None"
  by (auto simp: findField_def find_None_iff map_of_eq_None_iff split: option.split dest: map_of_SomeD)

lemma foldErr_skip: "(\<And>kv. kv \<in> set kvs \<Longrightarrow> findField fs (fst kv) = None) \<Longrightarrow> foldErr (decMember fs) r kvs = Inr r"
  by (induction kvs) (simp_all add: decMember_def)

lemma decStruct_known:
  assumes "\<And>kv. kv \<in> set (before @ after) \<Longrightarrow> findField fs (fst kv) = None" "decMember fs r kv = Inr r'"
  shows "decStruct fs r (JObj (before @ kv # after)) = Inr r'"
  using assms by (simp add: decStruct_def foldErr_append foldErr_skip)

lemma findField_mem: "findField fs k = Some f \<Longrightarrow> \<exists>k'. (k', f) \<in> set fs"
  by (auto simp: findField_def find_Some_iff dest: map_of_SomeD split: option.splits) (metis nth_mem prod.collapse)

text \<open>A property of a struct that every field keeps, when its JSON value is valid UTF-8.\<close>

lemma decStruct_invariant:
  assumes "decStruct fs r v = Inr r'" "P r" "utf8JSON v"
    and "\<And>k f r v r'. findField fs k = Some f \<Longrightarrow> f r v = Inr r' \<Longrightarrow> P r \<Longrightarrow> utf8JSON v \<Longrightarrow> P r'"
  shows "P r'"
proof (cases v)
  case (JObj kvs)
  show ?thesis
  proof (rule foldErr_invariant [where P = P])
    show "foldErr (decMember fs) r kvs = Inr r'" using assms(1) JObj by (simp add: decStruct_def)
  next
    fix r x r' assume r: "P r" and x: "x \<in> set kvs" and step: "decMember fs r x = Inr r'"
    have "utf8JSON (snd x)" using assms(3) JObj x by (auto simp: list_all_iff)
    then show "P r'" using assms(4) r step by (auto simp: decMember_def split: option.splits)
  qed (rule assms(2))
qed (use assms in \<open>auto simp: decStruct_def\<close>)

end
