(* ===== verification/Registry.thy ===== *)
theory Registry
  imports Json
begin

text \<open>
  The registry of cluster agents, \<^verbatim>\<open>internal/app/coordinator/registry.go\<close>: the map of
  entries, the map of connections made on demand, and the registry file.

  The connections of package grpc and the file system are the outside world: \<open>World\<close> has the
  endpoint each connection was made for, the set of connections that are open, and the
  contents of the files. What the operating system answers to the calls of one
  \<^verbatim>\<open>save\<close> is an argument (\<open>fs_outcome\<close>), so every failure branch is covered; so are the
  order in which the map is walked (\<open>rng\<close>) and whether a dial fails (\<open>dial\<close>). The file holds
  the JSON text of the entries. Every operation holds the registry's lock from beginning to
  end and is one step.
\<close>

section \<open>State\<close>

record ClusterEntry =
  ent_ClusterName :: string
  ent_GRPCEndpoint :: string
  ent_Labels :: "(string, string) fmap"

type_synonym conn = nat

record Registry =
  entries :: "(string, ClusterEntry) fmap"
  conns :: "(string, conn) fmap"
  filePath :: string

record World =
  dialled :: "string list"
  openConns :: "conn set"
  files :: "(string, string) fmap"

record fs_outcome =
  fs_CreateTemp :: "string option"
  fs_WriteFails :: "string option"
  fs_CloseOk :: bool
  fs_RenameOk :: bool
  fs_RemoveOk :: bool

datatype client_error = NotRegistered string | DialFailed string string

datatype load_error = ReadFailed string | ParseFailed json_error

section \<open>The JSON text of the entries\<close>

text \<open>The members in the order of the struct's fields; empty labels are omitted, keys of labels are sorted.\<close>

definition encodeEntry :: "ClusterEntry \<Rightarrow> json" where
  "encodeEntry e =
     JObj ([(''cluster_name'', JStr (ent_ClusterName e)), (''grpc_endpoint'', JStr (ent_GRPCEndpoint e))]
       @ (if ent_Labels e = fmempty then []
          else [(''labels'', JObj (map (\<lambda>k. (k, JStr (goget '''' (ent_Labels e) k)))
                  (sorted_list_of_set (fmdom' (ent_Labels e)))))]))"

text \<open>\<^verbatim>\<open>json.MarshalIndent(entries, "", "  ")\<close>, which has no error for these types.\<close>

definition marshalEntries :: "ClusterEntry list \<Rightarrow> string + string" where
  "marshalEntries es = Inr (MarshalIndent (JArr (map encodeEntry es)))"

definition zeroEntry :: ClusterEntry where
  "zeroEntry = \<lparr>ent_ClusterName = '''', ent_GRPCEndpoint = '''', ent_Labels = fmempty\<rparr>"

definition entryFields :: "ClusterEntry fields" where
  "entryFields =
     [(''cluster_name'', field ent_ClusterName (\<lambda>x r. r \<lparr>ent_ClusterName := x\<rparr>) decString),
      (''grpc_endpoint'', field ent_GRPCEndpoint (\<lambda>x r. r \<lparr>ent_GRPCEndpoint := x\<rparr>) decString),
      (''labels'', field ent_Labels (\<lambda>x r. r \<lparr>ent_Labels := x\<rparr>) decStringMap)]"

definition decodeEntries :: "json \<Rightarrow> json_error + ClusterEntry list" where
  "decodeEntries v =
     (case v of
        JArr vs \<Rightarrow>
          foldErr (\<lambda>es v. case decStruct entryFields zeroEntry v of Inl err \<Rightarrow> Inl err | Inr e \<Rightarrow> Inr (es @ [e])) [] vs
      | JNull \<Rightarrow> Inr []
      | _ \<Rightarrow> Inl TypeMismatch)"

definition unmarshalEntries :: "string \<Rightarrow> json_error + ClusterEntry list" where
  "unmarshalEntries data = Unmarshal decodeEntries data"

section \<open>Operations\<close>

definition NewRegistry :: "string \<Rightarrow> Registry" where
  "NewRegistry path = \<lparr>entries = fmempty, conns = fmempty, filePath = path\<rparr>"

text \<open>\<open>readFile\<close> is the answer of the operating system: a missing file, an error or the contents.\<close>

datatype read_result = NotExist | ReadError string | Contents string

definition Load ::
  "read_result \<Rightarrow> Registry \<Rightarrow> Registry \<times> load_error option" where
  "Load readFile r =
     (if filePath r = '''' then (r, None)
      else case readFile of
        NotExist \<Rightarrow> (r, None)
      | ReadError err \<Rightarrow> (r, Some (ReadFailed err))
      | Contents data \<Rightarrow>
          (case unmarshalEntries data of
             Inl err \<Rightarrow> (r, Some (ParseFailed err))
           | Inr es \<Rightarrow>
               (r \<lparr>entries := foldl (\<lambda>m e. fmupd (ent_ClusterName e) e m) (entries r) es\<rparr>, None)))"

definition List_entries :: "(string set \<Rightarrow> string list) \<Rightarrow> Registry \<Rightarrow> ClusterEntry list" where
  "List_entries rng r = map (\<lambda>k. the (fmlookup (entries r) k)) (rng (fmdom' (entries r)))"

definition removeFile :: "fs_outcome \<Rightarrow> string \<Rightarrow> World \<Rightarrow> World" where
  "removeFile o' path w = (if fs_RemoveOk o' then w \<lparr>files := fmdrop path (files w)\<rparr> else w)"

definition save ::
  "(string set \<Rightarrow> string list) \<Rightarrow> fs_outcome
   \<Rightarrow> Registry \<Rightarrow> World \<Rightarrow> World" where
  "save rng o' r w =
     (if filePath r = '''' then w
      else let es = map (\<lambda>k. the (fmlookup (entries r) k)) (rng (fmdom' (entries r)))
      in case marshalEntries es of
           Inl err \<Rightarrow> w
         | Inr data \<Rightarrow>
             (case fs_CreateTemp o' of
                None \<Rightarrow> w
              | Some tmpName \<Rightarrow>
                  (case fs_WriteFails o' of
                     Some partial \<Rightarrow> removeFile o' tmpName (w \<lparr>files := fmupd tmpName partial (files w)\<rparr>)
                   | None \<Rightarrow>
                       let w = w \<lparr>files := fmupd tmpName data (files w)\<rparr>
                       in if \<not> fs_CloseOk o' then removeFile o' tmpName w
                          else if \<not> fs_RenameOk o' then removeFile o' tmpName w
                          else w \<lparr>files := fmupd (filePath r) data (fmdrop tmpName (files w))\<rparr>)))"

definition closeConn :: "string \<Rightarrow> Registry \<times> World \<Rightarrow> Registry \<times> World" where
  "closeConn name rw =
     (case rw of (r, w) \<Rightarrow>
        (case fmlookup (conns r) name of
           None \<Rightarrow> (r, w)
         | Some c \<Rightarrow> (r \<lparr>conns := fmdrop name (conns r)\<rparr>, w \<lparr>openConns := openConns w - {c}\<rparr>)))"

definition Register ::
  "(string set \<Rightarrow> string list) \<Rightarrow> fs_outcome
   \<Rightarrow> ClusterEntry \<Rightarrow> Registry \<times> World \<Rightarrow> Registry \<times> World" where
  "Register rng o' entry rw =
     (let (r, w) = closeConn (ent_ClusterName entry) rw;
          r = r \<lparr>entries := fmupd (ent_ClusterName entry) entry (entries r)\<rparr>
      in (r, save rng o' r w))"

definition Unregister ::
  "(string set \<Rightarrow> string list) \<Rightarrow> fs_outcome
   \<Rightarrow> string \<Rightarrow> Registry \<times> World \<Rightarrow> Registry \<times> World" where
  "Unregister rng o' clusterName rw =
     (let (r, w) = closeConn clusterName rw;
          r = r \<lparr>entries := fmdrop clusterName (entries r)\<rparr>
      in (r, save rng o' r w))"

text \<open>A new connection is the next free number; \<open>dial\<close> gives the error of an endpoint, if any.\<close>

definition Client ::
  "(string \<Rightarrow> string option) \<Rightarrow> string \<Rightarrow> Registry \<times> World \<Rightarrow> (client_error + conn) \<times> Registry \<times> World" where
  "Client dial clusterName rw =
     (case rw of (r, w) \<Rightarrow>
        (case fmlookup (conns r) clusterName of
           Some c \<Rightarrow> (Inr c, r, w)
         | None \<Rightarrow>
             (case fmlookup (entries r) clusterName of
                None \<Rightarrow> (Inl (NotRegistered clusterName), r, w)
              | Some entry \<Rightarrow>
                  (case dial (ent_GRPCEndpoint entry) of
                     Some err \<Rightarrow> (Inl (DialFailed (ent_GRPCEndpoint entry) err), r, w)
                   | None \<Rightarrow>
                       let c = length (dialled w)
                       in (Inr c, r \<lparr>conns := fmupd clusterName c (conns r)\<rparr>,
                           w \<lparr>dialled := dialled w @ [ent_GRPCEndpoint entry],
                              openConns := insert c (openConns w)\<rparr>)))))"

section \<open>Runs\<close>

datatype reg_op =
    OpRegister fs_outcome ClusterEntry
  | OpUnregister fs_outcome string
  | OpClient "string \<Rightarrow> string option" string

fun reg_step ::
  "(string set \<Rightarrow> string list) \<Rightarrow> Registry \<times> World \<Rightarrow> reg_op \<Rightarrow> Registry \<times> World" where
  "reg_step rng rw (OpRegister o' e) = Register rng o' e rw"
| "reg_step rng rw (OpUnregister o' n) = Unregister rng o' n rw"
| "reg_step rng rw (OpClient dial n) = snd (Client dial n rw)"

definition reg_run ::
  "(string set \<Rightarrow> string list) \<Rightarrow> Registry \<times> World \<Rightarrow> reg_op list \<Rightarrow> Registry \<times> World" where
  "reg_run rng = foldl (reg_step rng)"

section \<open>Writing the entries and reading them back\<close>

definition labels_utf8 :: "(string, string) fmap \<Rightarrow> bool" where
  "labels_utf8 m \<longleftrightarrow> (\<forall>k v. fmlookup m k = Some v \<longrightarrow> valid_utf8 k \<and> valid_utf8 v)"

definition entry_utf8 :: "ClusterEntry \<Rightarrow> bool" where
  "entry_utf8 e \<longleftrightarrow>
     valid_utf8 (ent_ClusterName e) \<and> valid_utf8 (ent_GRPCEndpoint e) \<and> labels_utf8 (ent_Labels e)"

lemma decStringMap_Strings:
  "decStringMap m (JObj (map (\<lambda>k. (k, JStr (f k))) ks)) = Inr (foldl (\<lambda>m k. fmupd k (f k) m) m ks)"
  by (induction ks arbitrary: m) (simp_all add: decStringMap_def decString_def)

lemma foldl_fmupd_lookup:
  "fmlookup (foldl (\<lambda>m k. fmupd k (f k) m) m ks) n = (if n \<in> set ks then Some (f n) else fmlookup m n)"
  by (induction ks arbitrary: m) auto

lemma labels_roundtrip:
  "foldl (\<lambda>m k. fmupd k (goget '''' ls k) m) fmempty (sorted_list_of_set (fmdom' ls)) = ls"
  by (rule fmap_ext) (auto simp: foldl_fmupd_lookup goget_def fmdom'_iff split: option.split)

lemma normJSON_encodeEntry:
  assumes "entry_utf8 e"
  shows "normJSON (encodeEntry e) = encodeEntry e"
proof -
  have "toValid k = k \<and> toValid (goget '''' (ent_Labels e) k) = goget '''' (ent_Labels e) k"
    if "k \<in> set (sorted_list_of_set (fmdom' (ent_Labels e)))" for k
    using that assms by (auto simp: entry_utf8_def labels_utf8_def fmdom'_iff goget_def)
  then show ?thesis using assms by (simp add: encodeEntry_def entry_utf8_def)
qed

lemma decode_encodeEntry: "decStruct entryFields zeroEntry (encodeEntry e) = Inr e"
  by (simp add: encodeEntry_def decStruct_def decMember_def findField_def entryFields_def field_def zeroEntry_def
      decString_def decStringMap_Strings labels_roundtrip)

lemma fold_max_zero: "(\<And>x. x \<in> set xs \<Longrightarrow> x = 0) \<Longrightarrow> fold max xs (0 :: nat) = 0"
  using fold_max_le [of xs 0 0] by simp

lemma encodeEntry_shape: "numsOk (encodeEntry e)" "height (encodeEntry e) \<le> 2"
  using fold_max_zero [of "map (\<lambda>kv. height (snd kv)) (map (\<lambda>k. (k, JStr (goget '''' (ent_Labels e) k)))
      (sorted_list_of_set (fmdom' (ent_Labels e))))"]
  by (auto simp: encodeEntry_def list_all_iff)

lemma decodeEntries_encoded:
  assumes "\<And>e. e \<in> set es \<Longrightarrow> entry_utf8 e"
  shows "decodeEntries (normJSON (JArr (map encodeEntry es))) = Inr es"
proof -
  have "foldErr (\<lambda>es v. case decStruct entryFields zeroEntry v of Inl err \<Rightarrow> Inl err | Inr e \<Rightarrow> Inr (es @ [e])) acc
      (map (normJSON \<circ> encodeEntry) es) = Inr (acc @ es)" for acc
    using assms by (induction es arbitrary: acc) (simp_all add: decode_encodeEntry normJSON_encodeEntry)
  then show ?thesis by (simp add: decodeEntries_def)
qed

lemma entries_roundtrip:
  assumes "\<And>e. e \<in> set es \<Longrightarrow> entry_utf8 e"
  shows "unmarshalEntries (projr (marshalEntries es)) = Inr es"
proof -
  have "decodeEntries (normJSON (JArr (map encodeEntry es))) = Inr es" by (rule decodeEntries_encoded [OF assms])
  moreover have "numsOk (JArr (map encodeEntry es))" "height (JArr (map encodeEntry es)) \<le> 3"
    using encodeEntry_shape by (auto simp: list_all_iff fold_max_le)
  ultimately show ?thesis
    by (simp add: unmarshalEntries_def marshalEntries_def Unmarshal_indented maxNestingDepth_def del: height.simps numsOk.simps)
qed

text \<open>Decoded entries are valid UTF-8.\<close>

lemma decString_utf8: "decString old v = Inr s \<Longrightarrow> valid_utf8 old \<Longrightarrow> utf8JSON v \<Longrightarrow> valid_utf8 s"
  by (auto simp: decString_def split: json.splits)

lemma decStringMap_utf8:
  assumes "decStringMap old v = Inr m" "labels_utf8 old" "utf8JSON v"
  shows "labels_utf8 m"
proof (cases v)
  case (JObj kvs)
  show ?thesis
  proof (rule foldErr_invariant [where P = labels_utf8])
    show "foldErr (\<lambda>m kv. case decString '''' (snd kv) of Inl e \<Rightarrow> Inl e | Inr s \<Rightarrow> Inr (fmupd (fst kv) s m)) old kvs = Inr m"
      using assms(1) JObj by (simp add: decStringMap_def)
  next
    fix r x r' assume "labels_utf8 r" "x \<in> set kvs"
      "(case decString '''' (snd x) of Inl e \<Rightarrow> Inl e | Inr s \<Rightarrow> Inr (fmupd (fst x) s r)) = Inr r'"
    moreover have "valid_utf8 (fst x)" "utf8JSON (snd x)"
      using assms(3) JObj \<open>x \<in> set kvs\<close> by (auto simp: list_all_iff)
    ultimately show "labels_utf8 r'"
      using decString_utf8 [of "''''" "snd x"] by (auto simp: labels_utf8_def split: sum.splits if_splits)
  qed (rule assms(2))
qed (use assms in \<open>auto simp: decStringMap_def labels_utf8_def\<close>)

section \<open>Invariant and abstraction\<close>

text \<open>
  Every kept connection is open and was made for the endpoint that is registered now; two
  clusters never share one; no connection outside the map is open; entries are filed under
  their own name.
\<close>

definition reg_inv :: "Registry \<times> World \<Rightarrow> bool" where
  "reg_inv rw \<longleftrightarrow> (case rw of (r, w) \<Rightarrow>
     (\<forall>n c. fmlookup (conns r) n = Some c \<longrightarrow>
        c < length (dialled w)
        \<and> (\<exists>e. fmlookup (entries r) n = Some e \<and> ent_GRPCEndpoint e = dialled w ! c))
     \<and> (\<forall>n n' c. fmlookup (conns r) n = Some c \<and> fmlookup (conns r) n' = Some c \<longrightarrow> n = n')
     \<and> openConns w = {c. \<exists>n. fmlookup (conns r) n = Some c}
     \<and> (\<forall>n e. fmlookup (entries r) n = Some e \<longrightarrow> ent_ClusterName e = n))"

lemma reg_invD:
  assumes "reg_inv (r, w)"
  shows "fmlookup (conns r) n = Some c \<Longrightarrow>
      c < length (dialled w) \<and> (\<exists>e. fmlookup (entries r) n = Some e \<and> ent_GRPCEndpoint e = dialled w ! c)"
    and "fmlookup (conns r) n = Some c \<Longrightarrow> fmlookup (conns r) n' = Some c \<Longrightarrow> n = n'"
    and "openConns w = {c. \<exists>n. fmlookup (conns r) n = Some c}"
    and "fmlookup (entries r) n = Some e \<Longrightarrow> ent_ClusterName e = n"
  using assms by (simp_all add: reg_inv_def)

lemma reg_invI:
  assumes "\<And>n c. fmlookup (conns r) n = Some c \<Longrightarrow>
      c < length (dialled w) \<and> (\<exists>e. fmlookup (entries r) n = Some e \<and> ent_GRPCEndpoint e = dialled w ! c)"
    and "\<And>n n' c. fmlookup (conns r) n = Some c \<Longrightarrow> fmlookup (conns r) n' = Some c \<Longrightarrow> n = n'"
    and "openConns w = {c. \<exists>n. fmlookup (conns r) n = Some c}"
    and "\<And>n e. fmlookup (entries r) n = Some e \<Longrightarrow> ent_ClusterName e = n"
  shows "reg_inv (r, w)"
  using assms unfolding reg_inv_def by simp blast

text \<open>The registry as its callers see it: a map from names to entries.\<close>

fun spec_step :: "(string, ClusterEntry) fmap \<Rightarrow> reg_op \<Rightarrow> (string, ClusterEntry) fmap" where
  "spec_step m (OpRegister _ e) = fmupd (ent_ClusterName e) e m"
| "spec_step m (OpUnregister _ n) = fmdrop n m"
| "spec_step m (OpClient _ _) = m"

lemma save_frame [simp]:
  "dialled (save rng o' r w) = dialled w" "openConns (save rng o' r w) = openConns w"
  by (auto simp: save_def removeFile_def Let_def split: sum.split option.split)

lemma closeConn_entries [simp]:
  "entries (fst (closeConn n rw)) = entries (fst rw)" "filePath (fst (closeConn n rw)) = filePath (fst rw)"
  "dialled (snd (closeConn n rw)) = dialled (snd rw)" "files (snd (closeConn n rw)) = files (snd rw)"
  by (auto simp: closeConn_def split: prod.split option.split)

lemma closeConn_inv:
  assumes "reg_inv rw"
  shows "reg_inv (closeConn n rw)" "fmlookup (conns (fst (closeConn n rw))) n = None"
  using assms by (auto simp: reg_inv_def closeConn_def split: prod.splits option.splits)

lemma entries_inv:
  assumes "reg_inv (r, w)" "fmlookup (conns r) n = None"
  shows "ent_ClusterName e = n \<Longrightarrow> reg_inv (r \<lparr>entries := fmupd n e (entries r)\<rparr>, w)"
    and "reg_inv (r \<lparr>entries := fmdrop n (entries r)\<rparr>, w)"
  using assms by (auto simp: reg_inv_def)

lemma save_inv: "reg_inv (r, w) \<Longrightarrow> reg_inv (r, save rng o' r' w)"
  by (simp add: reg_inv_def)

lemma Register_inv: "reg_inv rw \<Longrightarrow> reg_inv (Register rng o' e rw)"
  using closeConn_inv [of rw "ent_ClusterName e"]
  by (cases "closeConn (ent_ClusterName e) rw") (simp add: Register_def Let_def save_inv entries_inv)

lemma Unregister_inv: "reg_inv rw \<Longrightarrow> reg_inv (Unregister rng o' n rw)"
  using closeConn_inv [of rw n]
  by (cases "closeConn n rw") (simp add: Unregister_def Let_def save_inv entries_inv)

lemma connect_inv:
  assumes "reg_inv (r, w)" "fmlookup (conns r) n = None" "fmlookup (entries r) n = Some e"
  shows "reg_inv (r \<lparr>conns := fmupd n (length (dialled w)) (conns r)\<rparr>,
    w \<lparr>dialled := dialled w @ [ent_GRPCEndpoint e], openConns := insert (length (dialled w)) (openConns w)\<rparr>)"
proof -
  note inv = reg_invD [OF assms(1)]
  let ?c = "length (dialled w)"
  have fresh: "fmlookup (conns r) m \<noteq> Some ?c" for m using inv(1) by fastforce
  show ?thesis
  proof (rule reg_invI)
    fix m c assume "fmlookup (conns (r \<lparr>conns := fmupd n ?c (conns r)\<rparr>)) m = Some c"
    then have "m = n \<and> c = ?c \<or> fmlookup (conns r) m = Some c" by (auto split: if_splits)
    then show "c < length (dialled (w \<lparr>dialled := dialled w @ [ent_GRPCEndpoint e], openConns := insert ?c (openConns w)\<rparr>))
        \<and> (\<exists>e'. fmlookup (entries (r \<lparr>conns := fmupd n ?c (conns r)\<rparr>)) m = Some e'
            \<and> ent_GRPCEndpoint e' = dialled (w \<lparr>dialled := dialled w @ [ent_GRPCEndpoint e],
                openConns := insert ?c (openConns w)\<rparr>) ! c)"
      using assms(3) inv(1) [of m c] by (elim disjE) (auto simp: nth_append)
  qed (use fresh inv(2-4) assms(2) in \<open>auto split: if_splits, metis option.distinct(1)\<close>)
qed

lemma Client_inv: "reg_inv rw \<Longrightarrow> reg_inv (snd (Client dial n rw))"
  by (cases rw) (auto simp: Client_def Let_def connect_inv split: option.split)

lemma reg_step_inv: "reg_inv rw \<Longrightarrow> reg_inv (reg_step rng rw a)"
  by (cases a) (simp_all add: Register_inv Unregister_inv Client_inv)

lemma reg_step_entries: "entries (fst (reg_step rng rw a)) = spec_step (entries (fst rw)) a"
proof (cases a)
  case (OpClient dial n)
  then show ?thesis by (auto simp: Client_def Let_def split: prod.split option.split)
qed (simp_all add: Register_def Unregister_def Let_def split_beta)

section \<open>The registry file\<close>

lemma Load_entries:
  "conns (fst (Load rd r)) = conns r" "filePath (fst (Load rd r)) = filePath r"
  by (auto simp: Load_def split: read_result.split sum.split)

lemma fold_entries_named:
  "(\<And>n e. fmlookup m n = Some e \<Longrightarrow> ent_ClusterName e = n) \<Longrightarrow>
   fmlookup (foldl (\<lambda>m e. fmupd (ent_ClusterName e) e m) m es) n = Some e \<Longrightarrow> ent_ClusterName e = n"
  by (induction es rule: rev_induct) (auto split: if_splits)

lemma fold_entries_lookup:
  assumes "distinct (map ent_ClusterName es)"
  shows "fmlookup (foldl (\<lambda>m e. fmupd (ent_ClusterName e) e m) m es) n =
    (case find (\<lambda>e. ent_ClusterName e = n) es of Some e \<Rightarrow> Some e | None \<Rightarrow> fmlookup m n)"
  using assms
proof (induction es arbitrary: m)
  case (Cons e es)
  have "find (\<lambda>e'. ent_ClusterName e' = ent_ClusterName e) es = None"
    using Cons.prems by (simp add: find_None_iff) (metis image_eqI)
  with Cons show ?case by (auto split: option.split)
qed simp

lemma Load_inv:
  assumes "openConns w = {}"
  shows "reg_inv (fst (Load rd (NewRegistry path)), w)"
  by (rule reg_invI)
    (auto simp: Load_entries assms Load_def NewRegistry_def
       split: if_splits read_result.splits sum.splits dest: fold_entries_named [rotated])

lemma List_entries_names:
  assumes "go_range rng" "reg_inv (r, w)"
  shows "map ent_ClusterName (List_entries rng r) = rng (fmdom' (entries r))"
    and "set (List_entries rng r) = {e. \<exists>n. fmlookup (entries r) n = Some e}"
proof -
  have dom: "set (rng (fmdom' (entries r))) = fmdom' (entries r)"
    using go_range.set_rng [OF assms(1)] by simp
  have "ent_ClusterName (the (fmlookup (entries r) n)) = n" if "n \<in> set (rng (fmdom' (entries r)))" for n
    using that reg_invD(4) [OF assms(2)] by (auto simp: dom fmdom'_iff)
  then show "map ent_ClusterName (List_entries rng r) = rng (fmdom' (entries r))"
    by (simp add: List_entries_def map_idI)
  show "set (List_entries rng r) = {e. \<exists>n. fmlookup (entries r) n = Some e}"
    by (force simp: List_entries_def dom fmdom'_iff)
qed

text \<open>Reloading the list of entries into an empty registry restores the map.\<close>

lemma reload_entries:
  assumes "go_range rng" "reg_inv (r, w)"
  shows "foldl (\<lambda>m e. fmupd (ent_ClusterName e) e m) fmempty (List_entries rng r) = entries r"
proof (rule fmap_ext)
  fix n
  note names = List_entries_names [OF assms]
  have d: "distinct (map ent_ClusterName (List_entries rng r))"
    unfolding names(1) using go_range.distinct_rng [OF assms(1)] by simp
  have "find (\<lambda>e. ent_ClusterName e = n) (List_entries rng r) = fmlookup (entries r) n"
  proof (cases "fmlookup (entries r) n")
    case None
    then show ?thesis using names(2) reg_invD(4) [OF assms(2)] by (auto simp: find_None_iff)
  next
    case (Some e)
    then have "\<exists>e' \<in> set (List_entries rng r). ent_ClusterName e' = n"
      using names(2) reg_invD(4) [OF assms(2)] by blast
    then obtain e' where e': "find (\<lambda>e. ent_ClusterName e = n) (List_entries rng r) = Some e'"
      by (cases "find (\<lambda>e. ent_ClusterName e = n) (List_entries rng r)") (auto simp: find_None_iff)
    then have "e' \<in> set (List_entries rng r)" "ent_ClusterName e' = n"
      by (auto simp: find_Some_iff in_set_conv_nth)
    then have "fmlookup (entries r) n = Some e'" using names(2) reg_invD(4) [OF assms(2)] by force
    with e' show ?thesis by simp
  qed
  then show "fmlookup (foldl (\<lambda>m e. fmupd (ent_ClusterName e) e m) fmempty (List_entries rng r)) n =
      fmlookup (entries r) n"
    by (simp add: fold_entries_lookup [OF d] split: option.split)
qed

text \<open>What a save leaves on disk: the new contents on success, and otherwise the old ones.\<close>

definition fs_ok :: "fs_outcome \<Rightarrow> bool" where
  "fs_ok o' \<longleftrightarrow> fs_CreateTemp o' \<noteq> None \<and> fs_WriteFails o' = None \<and> fs_CloseOk o' \<and> fs_RenameOk o'"

text \<open>The temporary name is a new name, as \<^verbatim>\<open>os.CreateTemp\<close> documents.\<close>

definition fresh_temp :: "fs_outcome \<Rightarrow> string \<Rightarrow> World \<Rightarrow> bool" where
  "fresh_temp o' path w \<longleftrightarrow>
     (case fs_CreateTemp o' of None \<Rightarrow> True | Some t \<Rightarrow> t \<noteq> path \<and> fmlookup (files w) t = None)"

lemma save_files:
  assumes "fresh_temp o' (filePath r) w"
  shows "fmlookup (files (save rng o' r w)) p =
    (if p = filePath r \<and> p \<noteq> '''' \<and> fs_ok o' \<and> \<not> isl (marshalEntries (List_entries rng r))
     then Some (projr (marshalEntries (List_entries rng r)))
     else if Some p = fs_CreateTemp o' \<and> filePath r \<noteq> '''' \<and> \<not> fs_ok o' \<and> \<not> fs_RemoveOk o'
       \<and> \<not> isl (marshalEntries (List_entries rng r))
     then Some (case fs_WriteFails o' of Some partial \<Rightarrow> partial | None \<Rightarrow> projr (marshalEntries (List_entries rng r)))
     else fmlookup (files w) p)"
proof (cases "marshalEntries (List_entries rng r)")
  case (Inr data)
  then show ?thesis
    using assms
    by (cases "fs_CreateTemp o'"; cases "fs_WriteFails o'")
      (auto simp: save_def removeFile_def fs_ok_def fresh_temp_def Let_def simp flip: List_entries_def)
qed (simp add: save_def Let_def flip: List_entries_def)

text \<open>All strings of the entries are valid UTF-8. What is read from the file always is.\<close>

definition entries_utf8 :: "(string, ClusterEntry) fmap \<Rightarrow> bool" where
  "entries_utf8 m \<longleftrightarrow> (\<forall>n e. fmlookup m n = Some e \<longrightarrow> entry_utf8 e)"

definition reg_utf8 :: "Registry \<Rightarrow> bool" where
  "reg_utf8 r \<longleftrightarrow> entries_utf8 (entries r)"

lemma entries_utf8_upd:
  "entries_utf8 m \<Longrightarrow> entry_utf8 e \<Longrightarrow> entries_utf8 (fmupd n e m)" "entries_utf8 m \<Longrightarrow> entries_utf8 (fmdrop n m)"
  by (auto simp: entries_utf8_def)

lemma entryFields_utf8:
  assumes "findField entryFields k = Some f" "f e v = Inr e'" "entry_utf8 e" "utf8JSON v"
  shows "entry_utf8 e'"
proof -
  have "(k', f) \<in> set entryFields \<Longrightarrow> entry_utf8 e'" for k'
    using assms(2-4) decString_utf8 decStringMap_utf8
    by (auto simp: entryFields_def field_def entry_utf8_def split: sum.splits)
  then show ?thesis using findField_mem [OF assms(1)] by blast
qed

lemma decStruct_entry_utf8:
  "decStruct entryFields e v = Inr e' \<Longrightarrow> entry_utf8 e \<Longrightarrow> utf8JSON v \<Longrightarrow> entry_utf8 e'"
  by (erule decStruct_invariant) (auto dest: entryFields_utf8)

lemma unmarshalEntries_utf8:
  assumes "unmarshalEntries data = Inr es" "e \<in> set es"
  shows "entry_utf8 e"
proof -
  obtain v where v: "parseJSON data = Inr v" "decodeEntries v = Inr es"
    using assms(1) by (auto simp: unmarshalEntries_def Unmarshal_def split: sum.splits)
  have zero: "entry_utf8 zeroEntry" by (simp add: zeroEntry_def entry_utf8_def labels_utf8_def)
  show ?thesis
  proof (cases v)
    case (JArr vs)
    have "\<forall>e \<in> set es. entry_utf8 e"
    proof (rule foldErr_invariant [where P = "\<lambda>es. \<forall>e \<in> set es. entry_utf8 e"])
      show "foldErr (\<lambda>es v. case decStruct entryFields zeroEntry v of Inl err \<Rightarrow> Inl err | Inr e \<Rightarrow> Inr (es @ [e])) [] vs = Inr es"
        using v(2) JArr by (simp add: decodeEntries_def)
    next
      fix r x r' assume "\<forall>e \<in> set r. entry_utf8 e" "x \<in> set vs"
        "(case decStruct entryFields zeroEntry x of Inl err \<Rightarrow> Inl err | Inr e \<Rightarrow> Inr (r @ [e])) = Inr r'"
      moreover have "utf8JSON x" using parseJSON_utf8 [OF v(1)] JArr \<open>x \<in> set vs\<close> by (auto simp: list_all_iff)
      ultimately show "\<forall>e \<in> set r'. entry_utf8 e"
        using decStruct_entry_utf8 [OF _ zero] by (auto split: sum.splits)
    qed simp
    then show ?thesis using assms(2) by blast
  qed (use v(2) assms(2) in \<open>auto simp: decodeEntries_def\<close>)
qed

lemma entries_utf8_foldl:
  "entries_utf8 m \<Longrightarrow> list_all entry_utf8 es \<Longrightarrow> entries_utf8 (foldl (\<lambda>m e. fmupd (ent_ClusterName e) e m) m es)"
  by (induction es arbitrary: m) (simp_all add: entries_utf8_upd)

lemma Load_utf8:
  assumes "reg_utf8 r"
  shows "reg_utf8 (fst (Load rd r))"
proof (cases "\<exists>data es. rd = Contents data \<and> unmarshalEntries data = Inr es")
  case True
  then obtain data es where rd: "rd = Contents data" "unmarshalEntries data = Inr es" by blast
  then have "list_all entry_utf8 es" using unmarshalEntries_utf8 by (simp add: list_all_iff)
  then show ?thesis using rd assms by (simp add: Load_def reg_utf8_def entries_utf8_foldl)
next
  case False
  then have "fst (Load rd r) = r" by (auto simp: Load_def split: read_result.split sum.split)
  then show ?thesis using assms by simp
qed

lemma reg_step_utf8:
  assumes "reg_utf8 (fst rw)" "\<And>o' e. a = OpRegister o' e \<Longrightarrow> entry_utf8 e"
  shows "reg_utf8 (fst (reg_step rng rw a))"
  using assms by (cases a) (simp_all add: reg_utf8_def entries_utf8_upd reg_step_entries del: reg_step.simps)

fun op_utf8 :: "reg_op \<Rightarrow> bool" where
  "op_utf8 (OpRegister _ e) = entry_utf8 e"
| "op_utf8 _ = True"

lemma reg_run_utf8: "reg_utf8 (fst rw) \<Longrightarrow> list_all op_utf8 ops \<Longrightarrow> reg_utf8 (fst (reg_run rng rw ops))"
proof (induction ops arbitrary: rw)
  case (Cons a ops)
  have "reg_utf8 (fst (reg_step rng rw a))" using Cons.prems by (intro reg_step_utf8) auto
  then show ?case using Cons.IH Cons.prems(2) by (simp add: reg_run_def)
qed (simp add: reg_run_def)

text \<open>After a successful save the file holds exactly the entries.\<close>

lemma saved_and_reloaded:
  assumes "go_range rng" "reg_inv rw" "a = OpRegister o' e \<or> a = OpUnregister o' n"
    and "reg_step rng rw a = (r', w')" "filePath r' \<noteq> ''''"
    and "fs_ok o'" "fresh_temp o' (filePath (fst rw)) (snd rw)"
    and "reg_utf8 r'"
  shows "\<exists>data. fmlookup (files w') (filePath r') = Some data
    \<and> Load (Contents data) (NewRegistry (filePath r')) = (r' \<lparr>conns := fmempty\<rparr>, None)"
proof -
  have inv: "reg_inv (r', w')" using reg_step_inv [OF assms(2)] assms(4) by metis
  define data where data: "data = projr (marshalEntries (List_entries rng r'))"
  have marshalled: "marshalEntries (List_entries rng r') = Inr data" by (simp add: data marshalEntries_def)
  have parsed: "unmarshalEntries data = Inr (List_entries rng r')"
    unfolding data using List_entries_names(2) [OF assms(1) inv] assms(8)
    by (intro entries_roundtrip) (auto simp: reg_utf8_def entries_utf8_def)
  obtain w where w': "w' = save rng o' r' w" and same: "filePath r' = filePath (fst rw)" "files w = files (snd rw)"
    using assms(3,4) by (auto simp: Register_def Unregister_def Let_def split_beta)
  have "fresh_temp o' (filePath r') w"
    using assms(7) same by (cases "fs_CreateTemp o'") (simp_all add: fresh_temp_def)
  then have "fmlookup (files w') (filePath r') = Some data"
    using assms(5,6) marshalled by (simp add: w' save_files)
  moreover have "Load (Contents data) (NewRegistry (filePath r')) = (r' \<lparr>conns := fmempty\<rparr>, None)"
    using assms(5) parsed reload_entries [OF assms(1) inv]
    by (simp add: Load_def NewRegistry_def)
  ultimately show ?thesis by blast
qed

section \<open>Properties\<close>

text \<open>
  C5. The registry keeps its invariant and behaves as a map from names to entries, in every
  sequence of operations after start-up, with any failures of the file system and of dialling:
  each kept connection is open and belongs to the endpoint registered now, no two clusters
  share one, no other connection stays open, and \<^verbatim>\<open>List\<close> returns each entry of the map
  exactly once.
\<close>

theorem registry_refines_map:
  assumes "go_range rng" "openConns w = {}" "r = fst (Load rd (NewRegistry path))"
    and "reg_run rng (r, w) ops = (r', w')"
  shows "reg_inv (r', w') \<and> entries r' = foldl spec_step (entries r) ops
    \<and> distinct (map ent_ClusterName (List_entries rng r'))
    \<and> set (List_entries rng r') = {e. \<exists>n. fmlookup (foldl spec_step (entries r) ops) n = Some e}"
proof -
  have "reg_inv (reg_run rng (r, w) ops)
      \<and> entries (fst (reg_run rng (r, w) ops)) = foldl spec_step (entries r) ops"
    using Load_inv [OF assms(2), of rd path] assms(3)
    by (induction ops rule: rev_induct) (simp_all add: reg_run_def reg_step_inv reg_step_entries)
  then have inv: "reg_inv (r', w')" and ent: "entries r' = foldl spec_step (entries r) ops"
    using assms(4) by simp_all
  note names = List_entries_names [OF assms(1) inv]
  have "distinct (map ent_ClusterName (List_entries rng r'))"
    unfolding names(1) using go_range.distinct_rng [OF assms(1)] by simp
  then show ?thesis using inv ent names(2) by simp
qed

text \<open>
  C25. A client is obtained exactly for a registered cluster whose endpoint can be dialled or
  that is connected already. The connection is open and leads to the registered endpoint, a
  second request reuses it, and a failed request changes nothing.
\<close>

theorem Client_correct:
  assumes "reg_inv (r, w)" "Client dial n (r, w) = (res, r', w')"
  shows "case res of
      Inr c \<Rightarrow> (\<exists>e. fmlookup (entries r) n = Some e \<and> ent_GRPCEndpoint e = dialled w' ! c)
         \<and> c \<in> openConns w' \<and> entries r' = entries r \<and> files w' = files w
         \<and> Client dial n (r', w') = (Inr c, r', w')
    | Inl (NotRegistered m) \<Rightarrow> m = n \<and> fmlookup (entries r) n = None \<and> r' = r \<and> w' = w
    | Inl (DialFailed ep err) \<Rightarrow> fmlookup (conns r) n = None \<and> r' = r \<and> w' = w \<and> dial ep = Some err
         \<and> (\<exists>e. fmlookup (entries r) n = Some e \<and> ent_GRPCEndpoint e = ep)"
proof (cases "fmlookup (conns r) n")
  case (Some c)
  then show ?thesis
    using assms(2) reg_invD(1,3) [OF assms(1)] by (fastforce simp: Client_def)
next
  case None
  then show ?thesis
    using assms(2) by (auto simp: Client_def Let_def split: option.splits)
qed

text \<open>
  C6. A save is atomic: whatever the file system does, the registry file afterwards has either
  its old contents or the complete encoding of all current entries, and no other file changes
  except a temporary file that could not be removed after a failure.
\<close>

theorem save_atomic:
  assumes "fresh_temp o' (filePath r) w" "w' = save rng o' r w"
  shows "(fmlookup (files w') (filePath r) = fmlookup (files w) (filePath r)
      \<or> (\<exists>data. marshalEntries (List_entries rng r) = Inr data \<and> fmlookup (files w') (filePath r) = Some data))
    \<and> (fs_RemoveOk o' \<longrightarrow> (\<forall>p. p \<noteq> filePath r \<longrightarrow> fmlookup (files w') p = fmlookup (files w) p))
    \<and> (\<forall>p. p \<noteq> filePath r \<and> Some p \<noteq> fs_CreateTemp o' \<longrightarrow> fmlookup (files w') p = fmlookup (files w) p)"
proof -
  have "isl s \<or> s = Inr (projr s)" for s :: "string + string" by (cases s) simp_all
  moreover have "Some (filePath r) \<noteq> fs_CreateTemp o'"
    using assms(1) by (auto simp: fresh_temp_def split: option.splits)
  ultimately show ?thesis using save_files [OF assms(1)] unfolding assms(2) by auto
qed

text \<open>
  Registrations survive a restart: after a registration or a removal whose save
  succeeded, a new registry that reads the file back has exactly the same entries, when their
  strings are valid UTF-8.
\<close>

theorem registrations_persist:
  assumes "go_range rng" "reg_inv rw" "a = OpRegister o' e \<or> a = OpUnregister o' n"
    and "reg_step rng rw a = (r', w')" "filePath r' \<noteq> ''''"
    and "fs_ok o'" "fresh_temp o' (filePath (fst rw)) (snd rw)"
    and "reg_utf8 r'"
  shows "\<exists>data. fmlookup (files w') (filePath r') = Some data
    \<and> Load (Contents data) (NewRegistry (filePath r')) = (r' \<lparr>conns := fmempty\<rparr>, None)"
  using saved_and_reloaded [OF assms] .

text \<open>
  Start-up continues with an empty registry when the file cannot be read or parsed, and
  the first registration then replaces the file: every registration that was persisted before
  is lost.
\<close>

theorem failed_load_then_register_loses:
  assumes "go_range rng" "path \<noteq> ''''"
    and "rd = ReadError err \<or> (\<exists>old e'. rd = Contents old \<and> unmarshalEntries old = Inl e')"
    and "fs_ok o'" "fresh_temp o' path w" "marshalEntries [e] = Inr data"
    and "r = fst (Load rd (NewRegistry path))"
  shows "snd (Load rd (NewRegistry path)) \<noteq> None
    \<and> fmlookup (files (snd (Register rng o' e (r, w)))) path = Some data"
proof -
  have r: "r = NewRegistry path" and failed: "snd (Load rd (NewRegistry path)) \<noteq> None"
    using assms(2,3,7) by (auto simp: Load_def NewRegistry_def)
  have single: "rng {n} = [n]" for n
    using go_range.set_rng [OF assms(1), of "{n}"] go_range.length_rng [OF assms(1), of "{n}"]
    by (cases "rng {n}") auto
  have "List_entries rng (r \<lparr>entries := fmupd (ent_ClusterName e) e (entries r)\<rparr>) = [e]"
    using single by (simp add: List_entries_def r NewRegistry_def)
  then show ?thesis
    using failed assms(2,4,5,6) r
    by (simp add: Register_def closeConn_def save_files NewRegistry_def Let_def)
qed

section \<open>Examples\<close>

definition exampleEntry :: "string \<Rightarrow> string \<Rightarrow> ClusterEntry" where
  "exampleEntry n ep = \<lparr>ent_ClusterName = n, ent_GRPCEndpoint = ep, ent_Labels = fmempty\<rparr>"

definition allOk :: fs_outcome where
  "allOk = \<lparr>fs_CreateTemp = Some ''/data/.registry-1.tmp'', fs_WriteFails = None, fs_CloseOk = True,
            fs_RenameOk = True, fs_RemoveOk = True\<rparr>"

definition exampleWorld :: World where
  "exampleWorld = \<lparr>dialled = [], openConns = {}, files = fmap_of_list [(''/data/reg.json'', ''broken'')]\<rparr>"

definition exampleOps :: "reg_op list" where
  "exampleOps = [OpRegister allOk (exampleEntry ''a'' ''a:1''), OpClient (\<lambda>_. None) ''a'',
     OpRegister allOk (exampleEntry ''b'' ''b:1''), OpRegister allOk (exampleEntry ''a'' ''a:2''),
     OpClient (\<lambda>_. None) ''a'', OpUnregister allOk ''b'']"

definition exampleRegistry :: "Registry \<times> World" where
  "exampleRegistry = reg_run sorted_list_of_set
     (fst (Load (Contents ''broken'') (NewRegistry ''/data/reg.json'')), exampleWorld) exampleOps"

lemma exampleRegistry_run:
  "reg_run sorted_list_of_set
     (fst (Load (Contents ''broken'') (NewRegistry ''/data/reg.json'')), exampleWorld) exampleOps =
     (fst exampleRegistry, snd exampleRegistry)"
  by (simp add: exampleRegistry_def)

lemma exampleWorld_closed: "openConns exampleWorld = {}"
  by (simp add: exampleWorld_def)

lemma exampleRegistry_inv: "reg_inv (fst exampleRegistry, snd exampleRegistry)"
proof -
  have "reg_inv (reg_run sorted_list_of_set rw ops)" if "reg_inv rw" for rw ops
    using that by (induction ops arbitrary: rw) (simp_all add: reg_run_def reg_step_inv)
  then show ?thesis
    unfolding exampleRegistry_run [symmetric] using Load_inv [OF exampleWorld_closed] by blast
qed

lemma exampleEntry_utf8: "valid_utf8 n \<Longrightarrow> valid_utf8 ep \<Longrightarrow> entry_utf8 (exampleEntry n ep)"
  by (simp add: exampleEntry_def entry_utf8_def labels_utf8_def)

lemma exampleRegistry_utf8: "reg_utf8 (fst exampleRegistry)"
proof -
  have "reg_utf8 (fst (Load (Contents ''broken'') (NewRegistry ''/data/reg.json'')))"
    by (rule Load_utf8) (simp add: reg_utf8_def entries_utf8_def NewRegistry_def)
  then show ?thesis
    unfolding exampleRegistry_def by (intro reg_run_utf8) (simp_all add: exampleOps_def exampleEntry_utf8)
qed

theorem registry_refines_map_witness:
  "reg_inv (fst exampleRegistry, snd exampleRegistry)
   \<and> map ent_GRPCEndpoint (List_entries sorted_list_of_set (fst exampleRegistry)) = [''a:2'']
   \<and> openConns (snd exampleRegistry) = {1} \<and> dialled (snd exampleRegistry) = [''a:1'', ''a:2'']"
proof -
  have "map ent_GRPCEndpoint (List_entries sorted_list_of_set (fst exampleRegistry)) = [''a:2'']"
    "openConns (snd exampleRegistry) = {1}" "dialled (snd exampleRegistry) = [''a:1'', ''a:2'']"
    by code_simp+
  then show ?thesis
    using registry_refines_map [OF go_range_sorted exampleWorld_closed refl exampleRegistry_run] by blast
qed

theorem Client_correct_witness:
  "fst (Client (\<lambda>_. None) ''a'' (fst exampleRegistry, snd exampleRegistry)) = Inr 1
   \<and> (\<exists>e. fmlookup (entries (fst exampleRegistry)) ''a'' = Some e \<and> ent_GRPCEndpoint e = ''a:2'')"
proof -
  have eq: "Client (\<lambda>_. None) ''a'' (fst exampleRegistry, snd exampleRegistry) =
      (Inr 1, fst exampleRegistry, snd exampleRegistry)" "dialled (snd exampleRegistry) ! 1 = ''a:2''"
    by code_simp+
  show ?thesis using Client_correct [OF exampleRegistry_inv eq(1)] eq by simp
qed

theorem save_atomic_witness:
  "\<exists>data. marshalEntries (List_entries sorted_list_of_set (fst exampleRegistry)) = Inr data
     \<and> fmlookup (files (save sorted_list_of_set allOk (fst exampleRegistry) exampleWorld)) ''/data/reg.json'' = Some data"
proof -
  have fresh: "fresh_temp allOk (filePath (fst exampleRegistry)) exampleWorld"
    and path: "filePath (fst exampleRegistry) = ''/data/reg.json''"
    and changed: "fmlookup (files (save sorted_list_of_set allOk (fst exampleRegistry) exampleWorld)) ''/data/reg.json''
      \<noteq> fmlookup (files exampleWorld) ''/data/reg.json''"
    by code_simp+
  show ?thesis using save_atomic [OF fresh refl, of sorted_list_of_set] changed unfolding path by blast
qed

theorem registrations_persist_witness:
  "\<exists>data. Load (Contents data) (NewRegistry ''/data/reg.json'') =
     ((fst (Register sorted_list_of_set allOk (exampleEntry ''c'' ''c:1'') exampleRegistry)) \<lparr>conns := fmempty\<rparr>, None)"
proof -
  let ?rw = "(fst exampleRegistry, snd exampleRegistry)" and ?a = "OpRegister allOk (exampleEntry ''c'' ''c:1'')"
  let ?r = "fst (reg_step sorted_list_of_set ?rw ?a)" and ?w = "snd (reg_step sorted_list_of_set ?rw ?a)"
  have facts: "filePath ?r = ''/data/reg.json''" "fs_ok allOk" "fresh_temp allOk (filePath (fst ?rw)) (snd ?rw)"
    by code_simp+
  have path: "filePath ?r \<noteq> ''''" using facts(1) by simp
  have step: "reg_step sorted_list_of_set ?rw ?a = (?r, ?w)" by simp
  have utf8: "reg_utf8 ?r"
    using exampleRegistry_utf8 by (intro reg_step_utf8) (auto simp: exampleEntry_utf8)
  show ?thesis
    using registrations_persist [OF go_range_sorted exampleRegistry_inv disjI1 [OF refl] step path facts(2,3) utf8]
    unfolding facts(1) by auto
qed

theorem failed_load_then_register_loses_witness:
  "fmlookup (files exampleWorld) ''/data/reg.json'' = Some ''broken''
   \<and> fmlookup (files (snd (Register sorted_list_of_set allOk (exampleEntry ''a'' ''x'')
        (fst (Load (Contents ''broken'') (NewRegistry ''/data/reg.json'')), exampleWorld))))
       ''/data/reg.json'' = Some (projr (marshalEntries [exampleEntry ''a'' ''x'']))"
proof -
  have facts: "''/data/reg.json'' \<noteq> ''''" "fs_ok allOk" "fresh_temp allOk ''/data/reg.json'' exampleWorld"
    "marshalEntries [exampleEntry ''a'' ''x''] = Inr (projr (marshalEntries [exampleEntry ''a'' ''x'']))"
    "unmarshalEntries ''broken'' = Inl SyntaxError"
    "fmlookup (files exampleWorld) ''/data/reg.json'' = Some ''broken''"
    by (simp, code_simp, code_simp, simp add: marshalEntries_def, code_simp, code_simp)
  show ?thesis
    using failed_load_then_register_loses [where rng = sorted_list_of_set and rd = "Contents ''broken''"
        and e = "exampleEntry ''a'' ''x''" and r = "fst (Load (Contents ''broken'') (NewRegistry ''/data/reg.json''))",
        OF go_range_sorted facts(1) _ facts(2-4) refl] facts(5,6) by simp
qed

end
