(* ===== verification/Event_Store.thy ===== *)
theory Event_Store
  imports Events
begin

text \<open>
  Package \<^verbatim>\<open>pkg/store\<close>: the fixed-capacity ring buffer of events with its inverted
  indexes and the burst-aware deduplication (\<^verbatim>\<open>store.go\<close>, \<^verbatim>\<open>filter.go\<close>).

  The record \<open>Store\<close> has the fields of the Go struct (the mutex apart: every operation
  runs under it, so an operation is one step). A pointer stored in \<^verbatim>\<open>byID\<close> is the
  map's entry; writing through it is an update of the entry. The ids are 64-bit words, so
  \<^verbatim>\<open>nextID++\<close> wraps around; that the ids of the live events stay distinct all the
  same is part of the invariant.

  The abstract specification is a list of events, oldest first (\<open>contents\<close>), with
  \<open>spec_add\<close> and \<open>spec_query\<close> as its operations. The theorems show that the ring,
  the dedup history, the eviction bookkeeping and the three indexes together implement it.
\<close>

section \<open>Data\<close>

definition DefaultMaxSize :: nat where
  "DefaultMaxSize = 10000"

definition maxBurstsPerKey :: nat where
  "maxBurstsPerKey = 5"

definition burstGap :: time where
  "burstGap = 5 * Minute"

record storeKey =
  sk_objectUID :: string
  sk_reason :: string

record Store =
  maxSize :: nat
  order :: "uint64 list"
  head :: nat
  full :: bool
  nextID :: uint64
  byID :: "(uint64, NormalizedEvent) fmap"
  dedupIdx :: "(storeKey, uint64 list) fmap"
  evictIdx :: "(uint64, storeKey) fmap"
  byNamespace :: "(string, uint64 set) fmap"
  byUID :: "(string, uint64 set) fmap"
  byReason :: "(string, uint64 set) fmap"

record Filter =
  f_Namespace :: string
  f_ObjectUID :: string
  f_Reason :: string
  f_Since :: time
  f_Limit :: go_int

record NamespaceSummary =
  ns_Reason :: string
  ns_TotalCount :: int32
  ns_Objects :: "string list"
  ns_LastSeen :: time

section \<open>Operations\<close>

definition New :: "go_int \<Rightarrow> Store" where
  "New n =
     (let m = (if sint n \<le> 0 then DefaultMaxSize else nat (sint n))
      in \<lparr> maxSize = m, order = replicate m 0, head = 0, full = False, nextID = 0,
           byID = fmempty, dedupIdx = fmempty, evictIdx = fmempty,
           byNamespace = fmempty, byUID = fmempty, byReason = fmempty \<rparr>)"

definition key_of :: "NormalizedEvent \<Rightarrow> storeKey" where
  "key_of e = \<lparr> sk_objectUID = InvolvedObjectUID e, sk_reason = Reason e \<rparr>"

definition isSameBurst :: "NormalizedEvent \<Rightarrow> NormalizedEvent \<Rightarrow> bool" where
  "isSameBurst incoming existing =
     (if sint (Count incoming) < sint (Count existing) then False
      else if \<not> IsZero (FirstSeen incoming)
              \<and> After (FirstSeen incoming) (LastSeen existing + burstGap) then False
      else True)"

text \<open>The in-place update of the latest burst episode.\<close>

definition updateBurst :: "NormalizedEvent \<Rightarrow> NormalizedEvent \<Rightarrow> NormalizedEvent" where
  "updateBurst e latest =
     (let l = latest\<lparr>Count := Count e\<rparr>;
          l = (if After (LastSeen e) (LastSeen l)
               then l\<lparr>LastSeen := LastSeen e, Message := Message e\<rparr> else l);
          l = (if \<not> IsZero (FirstSeen e)
                  \<and> (IsZero (FirstSeen l) \<or> Before (FirstSeen e) (FirstSeen l))
               then l\<lparr>FirstSeen := FirstSeen e\<rparr> else l)
      in if OwnerChain e \<noteq> [] then l\<lparr>OwnerChain := OwnerChain e\<rparr> else l)"

definition addToIndex :: "(string, uint64 set) fmap \<Rightarrow> string \<Rightarrow> uint64 \<Rightarrow> (string, uint64 set) fmap" where
  "addToIndex idx key i =
     (if key = '''' then idx else fmupd key (insert i (goget {} idx key)) idx)"

definition removeFromIndex :: "(string, uint64 set) fmap \<Rightarrow> string \<Rightarrow> uint64 \<Rightarrow> (string, uint64 set) fmap" where
  "removeFromIndex idx key i =
     (case fmlookup idx key of
        None \<Rightarrow> idx
      | Some s \<Rightarrow>
          let s = s - {i} in if s = {} then fmdrop key idx else fmupd key s idx)"

text \<open>The cleanup of the dedup history on eviction.\<close>

definition untrack :: "uint64 \<Rightarrow> Store \<Rightarrow> Store" where
  "untrack i s =
     (case fmlookup (evictIdx s) i of
        None \<Rightarrow> s
      | Some key \<Rightarrow>
          let ids = remove1 i (goget [] (dedupIdx s) key)
          in s\<lparr>dedupIdx := (if ids = [] then fmdrop key (dedupIdx s) else fmupd key ids (dedupIdx s)),
               evictIdx := fmdrop i (evictIdx s)\<rparr>)"

definition evict :: "uint64 \<Rightarrow> Store \<Rightarrow> Store" where
  "evict i s =
     (case fmlookup (byID s) i of
        None \<Rightarrow> s
      | Some e \<Rightarrow>
          let s = untrack i s
          in s\<lparr>byNamespace := removeFromIndex (byNamespace s) (Namespace e) i,
               byUID := removeFromIndex (byUID s) (InvolvedObjectUID e) i,
               byReason := removeFromIndex (byReason s) (Reason e) i,
               byID := fmdrop i (byID s)\<rparr>)"

text \<open>The history entry of a new episode; the oldest one beyond the maximum is forgotten.\<close>

definition track :: "uint64 \<Rightarrow> storeKey \<Rightarrow> Store \<Rightarrow> Store" where
  "track i key s =
     (let ids = goget [] (dedupIdx s) key @ [i];
          (ids, ev) = (if length ids > maxBurstsPerKey
                       then (tl ids, fmdrop (hd ids) (evictIdx s)) else (ids, evictIdx s))
      in s\<lparr>dedupIdx := fmupd key ids (dedupIdx s), evictIdx := fmupd i key ev\<rparr>)"

text \<open>The ring write: the slot at \<open>head\<close>, the advance of \<open>head\<close> and the \<open>full\<close> flag.\<close>

definition pushRing :: "NormalizedEvent \<Rightarrow> Store \<Rightarrow> Store" where
  "pushRing e s =
     (let i = nextID s;
          h = (head s + 1) mod maxSize s
      in s\<lparr>nextID := i + 1, byID := fmupd i e (byID s), order := (order s)[head s := i],
           head := h, full := (if h = 0 then True else full s)\<rparr>)"

text \<open>The eviction that precedes an insertion into a full ring.\<close>

definition makeRoom :: "Store \<Rightarrow> Store" where
  "makeRoom s = (if full s then evict (order s ! head s) s else s)"

definition insertEvent :: "NormalizedEvent \<Rightarrow> Store \<Rightarrow> Store" where
  "insertEvent e s =
     (let s = makeRoom s;
          i = nextID s;
          s = pushRing e s;
          s = (if InvolvedObjectUID e \<noteq> '''' then track i (key_of e) s else s)
      in s\<lparr>byNamespace := addToIndex (byNamespace s) (Namespace e) i,
           byUID := addToIndex (byUID s) (InvolvedObjectUID e) i,
           byReason := addToIndex (byReason s) (Reason e) i\<rparr>)"

text \<open>The id and the event of the stored episode that an incoming event continues, if any.\<close>

definition sameBurstTarget :: "Store \<Rightarrow> NormalizedEvent \<Rightarrow> (uint64 \<times> NormalizedEvent) option" where
  "sameBurstTarget s e =
     (if InvolvedObjectUID e = '''' then None
      else let ids = goget [] (dedupIdx s) (key_of e)
           in if ids = [] then None
              else case fmlookup (byID s) (last ids) of
                     None \<Rightarrow> None
                   | Some latest \<Rightarrow> if isSameBurst e latest then Some (last ids, latest) else None)"

definition Add :: "Store \<Rightarrow> NormalizedEvent \<Rightarrow> Store" where
  "Add s e =
     (case sameBurstTarget s e of
        Some (i, latest) \<Rightarrow> s\<lparr>byID := fmupd i (updateBurst e latest) (byID s)\<rparr>
      | None \<Rightarrow> insertEvent e s)"

definition Len :: "Store \<Rightarrow> nat" where
  "Len s = card (fmdom' (byID s))"

text \<open>\<^verbatim>\<open>intersect\<close>: the elements of the smallest set that are in all of them.\<close>

definition smallest :: "uint64 set list \<Rightarrow> uint64 set" where
  "smallest sets = foldl (\<lambda>m s. if card s < card m then s else m) (hd sets) (tl sets)"

definition intersect :: "uint64 set list \<Rightarrow> uint64 set" where
  "intersect sets =
     (if sets = [] then {}
      else Set.filter (\<lambda>i. list_all (\<lambda>s. i \<in> s) sets) (smallest sets))"

definition candidateIDs :: "Store \<Rightarrow> Filter \<Rightarrow> uint64 set" where
  "candidateIDs s f =
     (let sets = (if f_Namespace f \<noteq> '''' then [goget {} (byNamespace s) (f_Namespace f)] else [])
               @ (if f_ObjectUID f \<noteq> '''' then [goget {} (byUID s) (f_ObjectUID f)] else [])
               @ (if f_Reason f \<noteq> '''' then [goget {} (byReason s) (f_Reason f)] else [])
      in if sets = [] then fmdom' (byID s) else intersect sets)"

text \<open>
  \<^verbatim>\<open>sortByLastSeenDesc\<close>: the inner loop swaps the element at \<open>j\<close> down while it is
  later than its neighbour, the outer loop runs it for \<open>i = 1, 2, \<dots>\<close>.
\<close>

definition swap :: "'a list \<Rightarrow> nat \<Rightarrow> nat \<Rightarrow> 'a list" where
  "swap xs i j = xs[i := xs ! j, j := xs ! i]"

fun siftDown :: "NormalizedEvent list \<Rightarrow> nat \<Rightarrow> NormalizedEvent list" where
  "siftDown evs 0 = evs"
| "siftDown evs (Suc j) =
     (if After (LastSeen (evs ! Suc j)) (LastSeen (evs ! j))
      then siftDown (swap evs (Suc j) j) j else evs)"

definition sortByLastSeenDesc :: "NormalizedEvent list \<Rightarrow> NormalizedEvent list" where
  "sortByLastSeenDesc evs = foldl siftDown evs [1 ..< length evs]"

fun collect :: "Store \<Rightarrow> Filter \<Rightarrow> uint64 list \<Rightarrow> NormalizedEvent list" where
  "collect s f [] = []"
| "collect s f (i # ids) =
     (case fmlookup (byID s) i of
        None \<Rightarrow> collect s f ids
      | Some e \<Rightarrow>
          if \<not> IsZero (f_Since f) \<and> Before (LastSeen e) (f_Since f) then collect s f ids
          else e # collect s f ids)"

definition Query :: "(uint64 set \<Rightarrow> uint64 list) \<Rightarrow> Store \<Rightarrow> Filter \<Rightarrow> NormalizedEvent list" where
  "Query rng s f =
     (let out = collect s f (rng (candidateIDs s f));
          out = sortByLastSeenDesc out
      in if 0 < sint (f_Limit f) \<and> int (length out) > sint (f_Limit f)
         then take (nat (sint (f_Limit f))) out else out)"

record group =
  g_count :: int32
  g_objects :: "string set"
  g_lastSeen :: time

definition addToGroup :: "(string, group) fmap \<Rightarrow> NormalizedEvent \<Rightarrow> (string, group) fmap" where
  "addToGroup groups e =
     (let g = goget \<lparr>g_count = 0, g_objects = {}, g_lastSeen = zero_time\<rparr> groups (Reason e);
          g = g\<lparr>g_count := g_count g + Count e,
                g_objects := insert (InvolvedObjectName e) (g_objects g)\<rparr>;
          g = (if After (LastSeen e) (g_lastSeen g) then g\<lparr>g_lastSeen := LastSeen e\<rparr> else g)
      in fmupd (Reason e) g groups)"

definition toSummary :: "(string set \<Rightarrow> string list) \<Rightarrow> (string, group) fmap \<Rightarrow> string \<Rightarrow> NamespaceSummary" where
  "toSummary srng groups r =
     (let g = the (fmlookup groups r)
      in \<lparr> ns_Reason = r, ns_TotalCount = g_count g, ns_Objects = srng (g_objects g),
           ns_LastSeen = g_lastSeen g \<rparr>)"

definition SummarizeNamespace ::
  "(uint64 set \<Rightarrow> uint64 list) \<Rightarrow> (string set \<Rightarrow> string list) \<Rightarrow> Store \<Rightarrow> string \<Rightarrow> time
   \<Rightarrow> NamespaceSummary list" where
  "SummarizeNamespace rng srng s namespace since =
     (let evs = Query rng s \<lparr>f_Namespace = namespace, f_ObjectUID = '''', f_Reason = '''',
                             f_Since = since, f_Limit = 0\<rparr>;
          groups = foldl addToGroup fmempty evs
      in map (toSummary srng groups) (srng (fmdom' groups)))"

section \<open>The abstract store\<close>

text \<open>
  The specification: a bounded list of events, oldest first. Adding an event replaces the
  newest event of the same object and reason when it continues that burst; otherwise it is
  appended, and the oldest event leaves when the capacity is reached.
\<close>

definition same_key :: "NormalizedEvent \<Rightarrow> NormalizedEvent \<Rightarrow> bool" where
  "same_key e x \<longleftrightarrow> key_of x = key_of e"

definition spec_add :: "nat \<Rightarrow> NormalizedEvent list \<Rightarrow> NormalizedEvent \<Rightarrow> NormalizedEvent list" where
  "spec_add cap l e =
     (if InvolvedObjectUID e \<noteq> '''' \<and> filter (same_key e) l \<noteq> []
         \<and> isSameBurst e (last (filter (same_key e) l))
      then update_last (same_key e) (updateBurst e) l
      else (if length l = cap then tl l else l) @ [e])"

definition matches :: "Filter \<Rightarrow> NormalizedEvent \<Rightarrow> bool" where
  "matches f e \<longleftrightarrow>
     (f_Namespace f = '''' \<or> Namespace e = f_Namespace f)
     \<and> (f_ObjectUID f = '''' \<or> InvolvedObjectUID e = f_ObjectUID f)
     \<and> (f_Reason f = '''' \<or> Reason e = f_Reason f)
     \<and> (IsZero (f_Since f) \<or> f_Since f \<le> LastSeen e)"

text \<open>The live ids in insertion order, the event of an id, and the abstraction.\<close>

definition ring :: "Store \<Rightarrow> uint64 list" where
  "ring s = (if full s then drop (head s) (order s) @ take (head s) (order s)
             else take (head s) (order s))"

definition event_of :: "(uint64, NormalizedEvent) fmap \<Rightarrow> uint64 \<Rightarrow> NormalizedEvent" where
  "event_of m i = the (fmlookup m i)"

definition contents :: "Store \<Rightarrow> NormalizedEvent list" where
  "contents s = map (event_of (byID s)) (ring s)"

section \<open>The invariant\<close>

text \<open>The \<open>n\<close> ids issued last, oldest first.\<close>

fun issued :: "uint64 \<Rightarrow> nat \<Rightarrow> uint64 list" where
  "issued w 0 = []"
| "issued w (Suc n) = (w - of_nat (Suc n)) # issued w n"

text \<open>The dedup history of a key: its newest live episodes, at most \<open>maxBurstsPerKey\<close>.\<close>

definition hist :: "(uint64, NormalizedEvent) fmap \<Rightarrow> uint64 list \<Rightarrow> storeKey \<Rightarrow> uint64 list" where
  "hist m r k =
     (if sk_objectUID k = '''' then []
      else lastn maxBurstsPerKey (filter (\<lambda>i. key_of (event_of m i) = k) r))"

definition index_ok ::
  "(NormalizedEvent \<Rightarrow> string) \<Rightarrow> (string, uint64 set) fmap \<Rightarrow> (uint64, NormalizedEvent) fmap \<Rightarrow> bool" where
  "index_ok sel idx m \<longleftrightarrow>
     (\<forall>k. goget {} idx k = (if k = '''' then {} else {i. \<exists>e. fmlookup m i = Some e \<and> sel e = k}))
     \<and> (\<forall>k. fmlookup idx k \<noteq> Some {})"

text \<open>The bookkeeping agrees with the list of live ids \<open>r\<close>.\<close>

definition bookkeeping :: "uint64 list \<Rightarrow> Store \<Rightarrow> bool" where
  "bookkeeping r s \<longleftrightarrow>
     distinct r
     \<and> fmdom' (byID s) = set r
     \<and> (\<forall>k. goget [] (dedupIdx s) k = hist (byID s) r k \<and> fmlookup (dedupIdx s) k \<noteq> Some [])
     \<and> (\<forall>i k. fmlookup (evictIdx s) i = Some k \<longleftrightarrow> i \<in> set (hist (byID s) r k))
     \<and> index_ok Namespace (byNamespace s) (byID s)
     \<and> index_ok InvolvedObjectUID (byUID s) (byID s)
     \<and> index_ok Reason (byReason s) (byID s)"

definition ring_ok :: "Store \<Rightarrow> bool" where
  "ring_ok s \<longleftrightarrow>
     0 < maxSize s \<and> maxSize s < 2 ^ 63 \<and> length (order s) = maxSize s \<and> head s < maxSize s
     \<and> ring s = issued (nextID s) (length (ring s))"

definition store_inv :: "Store \<Rightarrow> bool" where
  "store_inv s \<longleftrightarrow> ring_ok s \<and> bookkeeping (ring s) s"

section \<open>Ids\<close>

lemma length_issued [simp]: "length (issued w n) = n"
  by (induction n) simp_all

lemma issued_snoc: "issued (w + 1) (Suc n) = issued w n @ [w]"
  by (induction n) simp_all

lemma set_issued: "set (issued w n) = (\<lambda>j. w - of_nat j) ` {1..n}"
proof (induction n)
  case 0
  then show ?case by simp
next
  case (Suc n)
  have "{1..Suc n} = insert (Suc n) {1..n}" by auto
  with Suc show ?case by simp
qed

lemma fresh_issued: "n < 2 ^ 64 \<Longrightarrow> w \<notin> set (issued w n)"
proof
  assume n: "n < 2 ^ 64" and "w \<in> set (issued w n)"
  then obtain j where "1 \<le> j" "j \<le> n" "w = w - of_nat j"
    unfolding set_issued by auto
  with n word64_minus_inj [of 0 j w] show False by simp
qed

lemma distinct_issued: "n < 2 ^ 64 \<Longrightarrow> distinct (issued w n)"
proof (induction n)
  case 0
  then show ?case by simp
next
  case (Suc n)
  have "w - of_nat (Suc n) \<notin> set (issued w n)"
  proof
    assume "w - of_nat (Suc n) \<in> set (issued w n)"
    then obtain j where "1 \<le> j" "j \<le> n" "w - of_nat (Suc n) = w - of_nat j"
      unfolding set_issued by auto
    with Suc.prems word64_minus_inj [of "Suc n" j w] show False by simp
  qed
  with Suc show ?case by simp
qed

section \<open>The ring\<close>

lemma length_ring: "ring_ok s \<Longrightarrow> length (ring s) = (if full s then maxSize s else head s)"
  by (auto simp: ring_def ring_ok_def)

lemma length_ring_le: "ring_ok s \<Longrightarrow> length (ring s) \<le> maxSize s"
  by (auto simp: length_ring) (simp add: ring_ok_def)

lemma distinct_ring: "ring_ok s \<Longrightarrow> distinct (ring s)"
  using length_ring_le [of s] distinct_issued [of "length (ring s)" "nextID s"]
  by (simp add: ring_ok_def)

lemma fresh_nextID: "ring_ok s \<Longrightarrow> nextID s \<notin> set (ring s)"
  using length_ring_le [of s] fresh_issued [of "length (ring s)" "nextID s"]
  by (simp add: ring_ok_def)

lemma ring_full: "ring_ok s \<Longrightarrow> full s \<Longrightarrow> ring s = (order s ! head s) # tl (ring s)"
  by (simp add: ring_def ring_ok_def flip: Cons_nth_drop_Suc)

lemma ring_pushRing:
  assumes "ring_ok s"
  shows "ring (pushRing e s) = (if full s then tl (ring s) else ring s) @ [nextID s]"
proof (cases "Suc (head s) = maxSize s")
  case True
  with assms show ?thesis
    by (simp add: ring_def ring_ok_def pushRing_def Let_def upd_conv_take_nth_drop
        flip: Cons_nth_drop_Suc)
next
  case False
  with assms show ?thesis
    by (auto simp: ring_def ring_ok_def pushRing_def Let_def take_Suc_conv_app_nth mod_less
        simp flip: Cons_nth_drop_Suc)
qed

section \<open>The inverted indexes\<close>

text \<open>
  What an index needs of the field it is built on: the in-place update of a burst keeps it.
  The laws of the index under the four ways the store changes its events follow.
\<close>

locale index_field =
  fixes sel :: "NormalizedEvent \<Rightarrow> string"
  assumes sel_updateBurst: "sel (updateBurst e x) = sel x"
begin

lemma index_empty: "index_ok sel fmempty fmempty"
  by (simp add: index_ok_def)

lemma index_add:
  "index_ok sel idx m \<Longrightarrow> fmlookup m i = None \<Longrightarrow>
   index_ok sel (addToIndex idx (sel e) i) (fmupd i e m)"
  by (auto simp: index_ok_def addToIndex_def)

lemma index_okD:
  "index_ok sel idx m \<Longrightarrow>
   goget {} idx k = (if k = [] then {} else {i. \<exists>e. fmlookup m i = Some e \<and> sel e = k})"
  by (simp add: index_ok_def)

lemma index_remove:
  assumes "index_ok sel idx m" "fmlookup m i = Some e"
  shows "index_ok sel (removeFromIndex idx (sel e) i) (fmdrop i m)"
proof (cases "fmlookup idx (sel e)")
  case None
  have "goget {} idx (sel e) = {}" using None by (simp add: goget_def)
  moreover have "i \<in> goget {} idx (sel e)" if "sel e \<noteq> []"
    using assms that by (auto simp: index_ok_def)
  ultimately have "sel e = []" by auto
  then have "{j. \<exists>x. fmlookup (fmdrop i m) j = Some x \<and> sel x = k}
      = {j. \<exists>x. fmlookup m j = Some x \<and> sel x = k}" if "k \<noteq> []" for k
    using assms(2) that by auto
  with None assms(1) show ?thesis
    by (simp add: index_ok_def removeFromIndex_def)
next
  case (Some S)
  with assms(1) have S: "S = (if sel e = '''' then {} else {j. \<exists>x. fmlookup m j = Some x \<and> sel x = sel e})"
    using index_okD [OF assms(1), of "sel e"] goget_Some [OF Some, of "{}"] by simp
  have ne: "fmlookup idx (sel e) \<noteq> Some {}" using assms(1) by (simp add: index_ok_def)
  with Some S have "sel e \<noteq> ''''" by auto
  with assms S Some show ?thesis
    by (auto simp: index_ok_def removeFromIndex_def Let_def)
qed

lemma index_update:
  assumes "index_ok sel idx m" "fmlookup m i = Some x"
  shows "index_ok sel idx (fmupd i (updateBurst e x) m)"
  using assms by (auto simp: index_ok_def sel_updateBurst)

lemma index_lookup:
  "index_ok sel idx m \<Longrightarrow> k \<noteq> '''' \<Longrightarrow> goget {} idx k = {i \<in> fmdom' m. sel (event_of m i) = k}"
  by (auto simp: index_ok_def event_of_def fmdom'_iff)

end

lemma updateBurst_frame [simp]:
  "ClusterName (updateBurst e x) = ClusterName x"
  "Namespace (updateBurst e x) = Namespace x"
  "InvolvedObjectKind (updateBurst e x) = InvolvedObjectKind x"
  "InvolvedObjectName (updateBurst e x) = InvolvedObjectName x"
  "InvolvedObjectUID (updateBurst e x) = InvolvedObjectUID x"
  "Reason (updateBurst e x) = Reason x"
  by (simp_all add: updateBurst_def Let_def)

lemma key_of_updateBurst [simp]: "key_of (updateBurst e x) = key_of x"
  by (simp add: key_of_def)

interpretation nsIdx: index_field Namespace
  by unfold_locales simp

interpretation uidIdx: index_field InvolvedObjectUID
  by unfold_locales simp

interpretation reasonIdx: index_field Reason
  by unfold_locales simp

lemmas index_add_all = nsIdx.index_add uidIdx.index_add reasonIdx.index_add
lemmas index_remove_all = nsIdx.index_remove uidIdx.index_remove reasonIdx.index_remove
lemmas index_update_all = nsIdx.index_update uidIdx.index_update reasonIdx.index_update

section \<open>The dedup history\<close>

lemma maxBurstsPerKey_pos: "0 < maxBurstsPerKey"
  by (simp add: maxBurstsPerKey_def)

lemma hist_cong:
  "(\<And>i. i \<in> set r \<Longrightarrow> key_of (event_of m i) = key_of (event_of m' i)) \<Longrightarrow> hist m r k = hist m' r k"
  unfolding hist_def by (metis (mono_tags, lifting) filter_cong)

lemma hist_Cons:
  "hist m (i # r) k =
     (if sk_objectUID k \<noteq> '''' \<and> key_of (event_of m i) = k
         \<and> length (filter (\<lambda>i. key_of (event_of m i) = k) r) < maxBurstsPerKey
      then i # hist m r k else hist m r k)"
  by (simp add: hist_def lastn_Cons)

lemma hist_snoc:
  "hist m (r @ [i]) k =
     (if sk_objectUID k \<noteq> '''' \<and> key_of (event_of m i) = k
      then (if length (hist m r k @ [i]) > maxBurstsPerKey
            then tl (hist m r k @ [i]) else hist m r k @ [i])
      else hist m r k)"
  using maxBurstsPerKey_pos by (simp add: hist_def lastn_snoc)

lemma hist_mem: "i \<in> set (hist m r k) \<Longrightarrow> i \<in> set r \<and> key_of (event_of m i) = k \<and> sk_objectUID k \<noteq> ''''"
  using set_lastn_subset [of maxBurstsPerKey "filter (\<lambda>i. key_of (event_of m i) = k) r"]
  by (auto simp: hist_def split: if_splits)

lemma hist_all:
  "sk_objectUID k \<noteq> '''' \<Longrightarrow> length (filter (\<lambda>i. key_of (event_of m i) = k) r) \<le> maxBurstsPerKey
   \<Longrightarrow> hist m r k = filter (\<lambda>i. key_of (event_of m i) = k) r"
  by (simp add: hist_def lastn_short)

lemma distinct_hist: "distinct r \<Longrightarrow> distinct (hist m r k)"
  by (simp add: hist_def distinct_lastn)

lemma length_hist: "length (hist m r k) \<le> maxBurstsPerKey"
  by (simp add: hist_def)

lemma last_hist:
  "sk_objectUID k \<noteq> '''' \<Longrightarrow> filter (\<lambda>i. key_of (event_of m i) = k) r \<noteq> [] \<Longrightarrow>
   last (hist m r k) = last (filter (\<lambda>i. key_of (event_of m i) = k) r)"
  by (simp add: hist_def last_lastn maxBurstsPerKey_def)

lemma hist_Nil_iff:
  "hist m r k = [] \<longleftrightarrow> sk_objectUID k = '''' \<or> filter (\<lambda>i. key_of (event_of m i) = k) r = []"
  by (simp add: hist_def maxBurstsPerKey_def)

lemma event_of_fmupd: "event_of (fmupd i e m) j = (if i = j then e else event_of m j)"
  by (simp add: event_of_def)

lemma event_of_fmdrop: "i \<noteq> j \<Longrightarrow> event_of (fmdrop i m) j = event_of m j"
  by (simp add: event_of_def)

lemma hist_fmdrop: "i \<notin> set r \<Longrightarrow> hist (fmdrop i m) r k = hist m r k"
  by (rule hist_cong) (metis event_of_fmdrop)

lemma hist_fmupd: "i \<notin> set r \<Longrightarrow> hist (fmupd i e m) r k = hist m r k"
  by (rule hist_cong) (metis event_of_fmupd)

section \<open>The bookkeeping under the operations\<close>

lemma bookkeepingD:
  assumes "bookkeeping r s"
  shows "distinct r" "fmdom' (byID s) = set r"
    and "goget [] (dedupIdx s) k = hist (byID s) r k" "fmlookup (dedupIdx s) k \<noteq> Some []"
    and "fmlookup (evictIdx s) i = Some k \<longleftrightarrow> i \<in> set (hist (byID s) r k)"
    and "index_ok Namespace (byNamespace s) (byID s)"
    and "index_ok InvolvedObjectUID (byUID s) (byID s)"
    and "index_ok Reason (byReason s) (byID s)"
  using assms by (auto simp: bookkeeping_def)

lemma untrack_frame [simp]:
  "byID (untrack i s) = byID s" "byNamespace (untrack i s) = byNamespace s"
  "byUID (untrack i s) = byUID s" "byReason (untrack i s) = byReason s"
  "maxSize (untrack i s) = maxSize s" "order (untrack i s) = order s" "head (untrack i s) = head s"
  "full (untrack i s) = full s" "nextID (untrack i s) = nextID s"
  by (simp_all add: untrack_def Let_def split: option.splits)

text \<open>Forgetting the oldest live id leaves exactly the history of the others.\<close>

lemma untrack_hist:
  assumes "bookkeeping (i # r) s"
  shows "goget [] (dedupIdx (untrack i s)) k = hist (byID s) r k"
    and "fmlookup (dedupIdx (untrack i s)) k \<noteq> Some []"
    and "fmlookup (evictIdx (untrack i s)) j = Some k \<longleftrightarrow> j \<in> set (hist (byID s) r k)"
proof -
  note bk = bookkeepingD [OF assms]
  have notin: "i \<notin> set (hist (byID s) r k)" for k
    using bk(1) hist_mem by fastforce
  have hist_tl: "hist (byID s) (i # r) k =
      (if i \<in> set (hist (byID s) (i # r) k) then i # hist (byID s) r k else hist (byID s) r k)" for k
    using notin by (simp add: hist_Cons)
  show "goget [] (dedupIdx (untrack i s)) k = hist (byID s) r k"
  proof (cases "fmlookup (evictIdx s) i")
    case None
    then have "i \<notin> set (hist (byID s) (i # r) k)" using bk(5) [of i k] by simp
    with None hist_tl [of k] show ?thesis by (simp add: untrack_def bk(3))
  next
    case (Some key)
    then have key: "i \<in> set (hist (byID s) (i # r) key)" using bk(5) by blast
    show ?thesis
    proof (cases "k = key")
      case True
      with Some key hist_tl [of key] show ?thesis by (auto simp: untrack_def Let_def bk(3))
    next
      case False
      with key have "i \<notin> set (hist (byID s) (i # r) k)" using hist_mem by metis
      with Some False hist_tl [of k] show ?thesis by (simp add: untrack_def Let_def bk(3))
    qed
  qed
  show "fmlookup (dedupIdx (untrack i s)) k \<noteq> Some []"
    using bk(4) by (auto simp: untrack_def Let_def split: option.splits)
  show "fmlookup (evictIdx (untrack i s)) j = Some k \<longleftrightarrow> j \<in> set (hist (byID s) r k)"
  proof (cases "j = i")
    case True
    with notin show ?thesis by (auto simp: untrack_def Let_def split: option.splits)
  next
    case False
    then have "j \<in> set (hist (byID s) (i # r) k) \<longleftrightarrow> j \<in> set (hist (byID s) r k)"
      by (simp add: hist_Cons)
    with False show ?thesis
      using bk(5) [of j k] by (auto simp: untrack_def Let_def split: option.splits)
  qed
qed

lemma evict_bookkeeping:
  assumes "bookkeeping (i # r) s"
  shows "bookkeeping r (evict i s)"
proof -
  note bk = bookkeepingD [OF assms]
  obtain e where e: "fmlookup (byID s) i = Some e"
    using bk(2) fmdom'_iff by fastforce
  have i: "i \<notin> set r" using bk(1) by simp
  have dom: "fmdom' (fmdrop i (byID s)) = set r" using bk(2) i by simp
  show ?thesis
    unfolding bookkeeping_def
    using e i dom bk(1) untrack_hist [OF assms] index_remove_all [OF _ e] bk(6-8)
    by (simp add: evict_def Let_def hist_fmdrop)
qed

lemma evict_frame [simp]:
  "maxSize (evict i s) = maxSize s" "order (evict i s) = order s" "head (evict i s) = head s"
  "full (evict i s) = full s" "nextID (evict i s) = nextID s"
  by (simp_all add: evict_def Let_def split: option.splits)

text \<open>The insertion of a fresh id, with its history entry and its index entries.\<close>

lemma track_frame [simp]:
  "byID (track i k s) = byID s" "byNamespace (track i k s) = byNamespace s"
  "byUID (track i k s) = byUID s" "byReason (track i k s) = byReason s"
  "maxSize (track i k s) = maxSize s" "order (track i k s) = order s" "head (track i k s) = head s"
  "full (track i k s) = full s" "nextID (track i k s) = nextID s"
  by (simp_all add: track_def Let_def)

lemma track_hist:
  assumes bk: "\<And>k. goget [] (dedupIdx s) k = hist m r k" "\<And>k. fmlookup (dedupIdx s) k \<noteq> Some []"
      "\<And>j k. fmlookup (evictIdx s) j = Some k \<longleftrightarrow> j \<in> set (hist m r k)"
    and r: "distinct r" "i \<notin> set r" and key: "key_of (event_of m i) = key" "sk_objectUID key \<noteq> ''''"
  shows "goget [] (dedupIdx (track i key s)) k = hist m (r @ [i]) k"
    and "fmlookup (dedupIdx (track i key s)) k \<noteq> Some []"
    and "fmlookup (evictIdx (track i key s)) j = Some k \<longleftrightarrow> j \<in> set (hist m (r @ [i]) k)"
proof -
  show "goget [] (dedupIdx (track i key s)) k = hist m (r @ [i]) k"
    using key by (auto simp: track_def Let_def bk(1) hist_snoc)
  show "fmlookup (dedupIdx (track i key s)) k \<noteq> Some []"
    using bk(2) [of k] by (auto simp: track_def Let_def bk(1) maxBurstsPerKey_def tl_append split: list.splits)
  have notin: "i \<notin> set (hist m r k)" for k
    using r(2) hist_mem by metis
  have d: "distinct (hist m r key @ [i])" using distinct_hist [OF r(1)] notin by simp
  show "fmlookup (evictIdx (track i key s)) j = Some k \<longleftrightarrow> j \<in> set (hist m (r @ [i]) k)"
  proof (cases "k = key")
    case True
    with d key bk(3) notin show ?thesis
      by (cases "hist m r key") (auto simp: track_def Let_def bk(1) hist_snoc maxBurstsPerKey_def)
  next
    case False
    moreover have "hd (hist m r key @ [i]) \<notin> set (hist m r k)"
      using False notin hist_mem by (cases "hist m r key") (auto, metis list.set_intros(1))
    ultimately show ?thesis
      using key bk(3) [of j k] notin by (auto simp: track_def Let_def bk(1) hist_snoc)
  qed
qed

text \<open>The bookkeeping part of an insertion, after the ring slot was freed.\<close>

lemma insert_bookkeeping:
  assumes "bookkeeping r s" "i = nextID s" "i \<notin> set r"
    and "s1 = pushRing e s"
    and "s2 = (if InvolvedObjectUID e \<noteq> '''' then track i (key_of e) s1 else s1)"
  shows "bookkeeping (r @ [i])
    (s2\<lparr>byNamespace := addToIndex (byNamespace s2) (Namespace e) i,
        byUID := addToIndex (byUID s2) (InvolvedObjectUID e) i,
        byReason := addToIndex (byReason s2) (Reason e) i\<rparr>)"
proof -
  note bk = bookkeepingD [OF assms(1)]
  have push: "byID s1 = fmupd i e (byID s)" "dedupIdx s1 = dedupIdx s" "evictIdx s1 = evictIdx s"
    "byNamespace s1 = byNamespace s" "byUID s1 = byUID s" "byReason s1 = byReason s"
    using assms(2,4) by (simp_all add: pushRing_def Let_def)
  have frame: "byID s2 = byID s1" "byNamespace s2 = byNamespace s" "byUID s2 = byUID s"
    "byReason s2 = byReason s"
    using assms(5) push by simp_all
  have none: "fmlookup (byID s) i = None"
    using bk(2) assms(3) fmdom'_iff by (metis option.exhaust)
  have key: "key_of (event_of (byID s1) i) = key_of e" by (simp add: push event_of_fmupd)
  have hists: "goget [] (dedupIdx s1) k = hist (byID s1) r k" "fmlookup (dedupIdx s1) k \<noteq> Some []"
    "fmlookup (evictIdx s1) j = Some k \<longleftrightarrow> j \<in> set (hist (byID s1) r k)" for j k
    using bk(3-5) assms(3) by (simp_all add: push hist_fmupd)
  have track: "goget [] (dedupIdx s2) k = hist (byID s1) (r @ [i]) k"
    "fmlookup (dedupIdx s2) k \<noteq> Some []"
    "fmlookup (evictIdx s2) j = Some k \<longleftrightarrow> j \<in> set (hist (byID s1) (r @ [i]) k)" for j k
  proof (atomize (full), cases "InvolvedObjectUID e = ''''")
    case True
    then have "hist (byID s1) (r @ [i]) k = hist (byID s1) r k"
      using key by (auto simp: hist_snoc key_of_def)
    with True hists assms(5)
    show "goget [] (dedupIdx s2) k = hist (byID s1) (r @ [i]) k \<and>
      fmlookup (dedupIdx s2) k \<noteq> Some [] \<and>
      (fmlookup (evictIdx s2) j = Some k) = (j \<in> set (hist (byID s1) (r @ [i]) k))" by simp
  next
    case False
    then have "sk_objectUID (key_of e) \<noteq> ''''" by (simp add: key_of_def)
    with False assms(5)
    show "goget [] (dedupIdx s2) k = hist (byID s1) (r @ [i]) k \<and>
      fmlookup (dedupIdx s2) k \<noteq> Some [] \<and>
      (fmlookup (evictIdx s2) j = Some k) = (j \<in> set (hist (byID s1) (r @ [i]) k))"
      using track_hist [OF hists bk(1) assms(3) key] by simp
  qed
  show ?thesis
    unfolding bookkeeping_def
    using bk(1,2) assms(3) track index_add_all [OF _ none] bk(6-8)
    by (simp add: frame push)
qed

lemma update_bookkeeping:
  assumes "bookkeeping r s" "fmlookup (byID s) i = Some x"
  shows "bookkeeping r (s\<lparr>byID := fmupd i (updateBurst e x) (byID s)\<rparr>)"
proof -
  note bk = bookkeepingD [OF assms(1)]
  have "hist (fmupd i (updateBurst e x) (byID s)) r k = hist (byID s) r k" for k
    using assms(2) by (intro hist_cong) (auto simp: event_of_def)
  moreover have "i \<in> set r"
    using assms(2) bk(2) by (metis fmdom'I)
  ultimately show ?thesis
    unfolding bookkeeping_def
    using bk index_update_all [OF _ assms(2)] by (simp add: insert_absorb)
qed

section \<open>Adding an event\<close>

lemma store_invD: "store_inv s \<Longrightarrow> ring_ok s" "store_inv s \<Longrightarrow> bookkeeping (ring s) s"
  by (simp_all add: store_inv_def)

text \<open>The ring before the write: without its oldest id when it is full.\<close>

definition survivors :: "Store \<Rightarrow> uint64 list" where
  "survivors s = (if full s then tl (ring s) else ring s)"

lemma ring_cong:
  "order s = order t \<Longrightarrow> head s = head t \<Longrightarrow> full s = full t \<Longrightarrow> ring s = ring t"
  by (simp add: ring_def)

lemma ring_ok_cong:
  "order s = order t \<Longrightarrow> head s = head t \<Longrightarrow> full s = full t \<Longrightarrow> nextID s = nextID t
   \<Longrightarrow> maxSize s = maxSize t \<Longrightarrow> ring_ok s = ring_ok t"
  by (simp add: ring_ok_def ring_cong [of s t])

lemma ring_ok_pushRing:
  assumes "ring_ok s"
  shows "ring_ok (pushRing e s)"
proof -
  let ?n = "length (survivors s)"
  have iss: "ring s = issued (nextID s) (length (ring s))" using assms by (simp add: ring_ok_def)
  have "survivors s = issued (nextID s) ?n"
  proof (cases "full s")
    case True
    with assms have "length (ring s) = Suc (length (ring s) - 1)"
      by (simp add: length_ring ring_ok_def)
    with iss have "tl (ring s) = issued (nextID s) (length (ring s) - 1)"
      by (metis issued.simps(2) list.sel(3))
    with True show ?thesis by (simp add: survivors_def)
  next
    case False
    with iss show ?thesis by (simp add: survivors_def)
  qed
  then have "survivors s @ [nextID s] = issued (nextID s + 1) (Suc ?n)"
    by (simp only: issued_snoc)
  moreover have "ring (pushRing e s) = survivors s @ [nextID s]"
    using assms by (simp add: ring_pushRing survivors_def)
  ultimately show ?thesis
    using assms by (simp add: ring_ok_def pushRing_def Let_def)
qed

lemma makeRoom_frame [simp]:
  "maxSize (makeRoom s) = maxSize s" "order (makeRoom s) = order s" "head (makeRoom s) = head s"
  "full (makeRoom s) = full s" "nextID (makeRoom s) = nextID s"
  by (simp_all add: makeRoom_def)

lemma insertEvent_frame:
  "order (insertEvent e s) = order (pushRing e s)" "head (insertEvent e s) = head (pushRing e s)"
  "full (insertEvent e s) = full (pushRing e s)" "nextID (insertEvent e s) = nextID (pushRing e s)"
  "maxSize (insertEvent e s) = maxSize s"
  by (simp_all add: insertEvent_def pushRing_def Let_def)

lemma ring_insertEvent:
  "ring_ok s \<Longrightarrow> ring (insertEvent e s) = survivors s @ [nextID s]"
  using ring_cong [of "insertEvent e s" "pushRing e s"]
  by (simp add: insertEvent_frame ring_pushRing survivors_def)

lemma makeRoom_bookkeeping: "store_inv s \<Longrightarrow> bookkeeping (survivors s) (makeRoom s)"
  using ring_full [of s] evict_bookkeeping [of "order s ! head s" "tl (ring s)" s]
  by (auto simp: store_inv_def makeRoom_def survivors_def)

lemma survivors_fresh: "ring_ok s \<Longrightarrow> nextID s \<notin> set (survivors s)"
  using fresh_nextID [of s] by (cases "ring s") (auto simp: survivors_def)

lemma insertEvent_inv:
  assumes "store_inv s"
  shows "store_inv (insertEvent e s)"
proof -
  have ok: "ring_ok s" using assms by (rule store_invD)
  have "ring_ok (insertEvent e s)"
    using ring_ok_cong [of "insertEvent e s" "pushRing e s"] ring_ok_pushRing [OF ok]
    by (simp add: insertEvent_frame pushRing_def Let_def)
  moreover have "bookkeeping (survivors s @ [nextID (makeRoom s)]) (insertEvent e s)"
    unfolding insertEvent_def Let_def
    by (rule insert_bookkeeping [OF makeRoom_bookkeeping [OF assms] refl _ refl refl])
      (simp add: survivors_fresh [OF ok])
  ultimately show ?thesis by (simp add: store_inv_def ring_insertEvent [OF ok])
qed

lemma sameBurstTarget_Some:
  "sameBurstTarget s e = Some (i, x) \<Longrightarrow>
   fmlookup (byID s) i = Some x \<and> isSameBurst e x \<and> InvolvedObjectUID e \<noteq> ''''
   \<and> goget [] (dedupIdx s) (key_of e) \<noteq> [] \<and> i = last (goget [] (dedupIdx s) (key_of e))"
  by (auto simp: sameBurstTarget_def Let_def split: if_splits option.splits)

text \<open>The target is found through the history; it is the newest live event of the key.\<close>

lemma sameBurstTarget_spec:
  assumes "store_inv s"
  shows "sameBurstTarget s e =
    (let l = filter (\<lambda>i. same_key e (event_of (byID s) i)) (ring s)
     in if InvolvedObjectUID e \<noteq> '''' \<and> l \<noteq> [] \<and> isSameBurst e (event_of (byID s) (last l))
        then Some (last l, event_of (byID s) (last l)) else None)"
proof -
  note bk = bookkeepingD [OF store_invD(2) [OF assms]]
  let ?l = "filter (\<lambda>i. key_of (event_of (byID s) i) = key_of e) (ring s)"
  have uid: "sk_objectUID (key_of e) = InvolvedObjectUID e" by (simp add: key_of_def)
  have "fmlookup (byID s) (last ?l) = Some (event_of (byID s) (last ?l))" if "?l \<noteq> []"
  proof -
    have "last ?l \<in> fmdom' (byID s)" using last_in_set [OF that] bk(2) by simp
    then show ?thesis by (auto simp: event_of_def fmdom'_iff)
  qed
  then show ?thesis
    by (auto simp: sameBurstTarget_def Let_def bk(3) same_key_def hist_Nil_iff last_hist uid)
qed

lemma Add_inv: "store_inv s \<Longrightarrow> store_inv (Add s e)"
proof (cases "sameBurstTarget s e")
  case None
  moreover assume "store_inv s"
  ultimately show ?thesis by (simp add: Add_def insertEvent_inv)
next
  case (Some p)
  moreover assume inv: "store_inv s"
  moreover obtain i x where p: "p = (i, x)" by (cases p)
  ultimately have "fmlookup (byID s) i = Some x" using sameBurstTarget_Some by blast
  then have "bookkeeping (ring s) (s\<lparr>byID := fmupd i (updateBurst e x) (byID s)\<rparr>)"
    using inv update_bookkeeping store_invD(2) by blast
  moreover have "ring_ok s" using inv by (rule store_invD)
  ultimately show ?thesis
    using Some p ring_cong [of "s\<lparr>byID := fmupd i (updateBurst e x) (byID s)\<rparr>" s]
      ring_ok_cong [of "s\<lparr>byID := fmupd i (updateBurst e x) (byID s)\<rparr>" s]
    by (simp add: Add_def store_inv_def)
qed

lemma Add_maxSize [simp]: "maxSize (Add s e) = maxSize s"
  by (auto simp: Add_def insertEvent_frame split: option.splits)

lemma New_inv: "store_inv (New n)"
proof -
  have "nat (sint n) < 2 ^ 63" using sint64_bounds(2) [of n] by (simp add: nat_less_iff)
  then show ?thesis
    by (auto simp: store_inv_def New_def Let_def ring_ok_def ring_def bookkeeping_def hist_def
        DefaultMaxSize_def index_ok_def)
qed

text \<open>The invariant does not depend on where the counter of the ids starts.\<close>

lemma New_counter_inv: "store_inv ((New n)\<lparr>nextID := start\<rparr>)"
  using New_inv [of n] by (simp add: store_inv_def ring_ok_def bookkeeping_def ring_def New_def Let_def)

lemma foldl_Add_inv: "store_inv s \<Longrightarrow> store_inv (foldl Add s es)"
  by (induction es arbitrary: s) (simp_all add: Add_inv)

section \<open>Refinement of the abstract store\<close>

lemma event_of_evict: "i \<noteq> j \<Longrightarrow> event_of (byID (evict i s)) j = event_of (byID s) j"
  by (simp add: evict_def Let_def event_of_fmdrop split: option.splits)

lemma map_event_of_survivors:
  assumes "ring_ok s"
  shows "map (event_of (byID (makeRoom s))) (survivors s) = map (event_of (byID s)) (survivors s)"
proof (cases "full s")
  case True
  have "order s ! head s \<notin> set (tl (ring s))"
    using distinct_ring [OF assms] ring_full [OF assms True] by (metis distinct.simps(2))
  with True show ?thesis
    by (auto simp: makeRoom_def survivors_def intro!: event_of_evict)
next
  case False
  then show ?thesis by (simp add: makeRoom_def)
qed

lemma contents_insertEvent:
  assumes "store_inv s"
  shows "contents (insertEvent e s) = (if full s then tl (contents s) else contents s) @ [e]"
proof -
  have ok: "ring_ok s" using assms by (rule store_invD)
  have "byID (insertEvent e s) = fmupd (nextID s) e (byID (makeRoom s))"
    by (simp add: insertEvent_def pushRing_def Let_def)
  then have "contents (insertEvent e s) =
      map (event_of (fmupd (nextID s) e (byID (makeRoom s)))) (survivors s) @ [e]"
    by (simp add: contents_def ring_insertEvent [OF ok] event_of_fmupd)
  also have "map (event_of (fmupd (nextID s) e (byID (makeRoom s)))) (survivors s) =
      map (event_of (byID (makeRoom s))) (survivors s)"
    using survivors_fresh [OF ok] by (auto simp: event_of_fmupd)
  also have "\<dots> = (if full s then tl (contents s) else contents s)"
    by (simp only: map_event_of_survivors [OF ok]) (simp add: survivors_def contents_def map_tl)
  finally show ?thesis .
qed

lemma full_iff: "ring_ok s \<Longrightarrow> full s \<longleftrightarrow> length (contents s) = maxSize s"
  using length_ring [of s] by (auto simp: contents_def ring_ok_def)

lemma sameBurstTarget_None:
  assumes "store_inv s"
  shows "sameBurstTarget s e = None \<longleftrightarrow>
    \<not> (InvolvedObjectUID e \<noteq> '''' \<and> filter (same_key e) (contents s) \<noteq> []
        \<and> isSameBurst e (last (filter (same_key e) (contents s))))"
proof -
  let ?P = "\<lambda>i. same_key e (event_of (byID s) i)"
  have "filter (same_key e) (contents s) = map (event_of (byID s)) (filter ?P (ring s))"
    by (simp add: contents_def filter_map comp_def)
  moreover from this have "filter (same_key e) (contents s) \<noteq> [] \<Longrightarrow>
      last (filter (same_key e) (contents s)) = event_of (byID s) (last (filter ?P (ring s)))"
    by (simp add: last_map)
  ultimately show ?thesis by (auto simp: sameBurstTarget_spec [OF assms] Let_def)
qed

text \<open>What a call of \<open>Add\<close> does to the ids.\<close>

lemma Add_ids:
  assumes "store_inv s"
  shows "sameBurstTarget s e \<noteq> None \<Longrightarrow> ring (Add s e) = ring s \<and> nextID (Add s e) = nextID s"
    and "sameBurstTarget s e = None \<Longrightarrow>
      ring (Add s e) = (if length (ring s) = maxSize s then tl (ring s) else ring s) @ [nextID s]
      \<and> nextID (Add s e) = nextID s + 1"
proof -
  have ok: "ring_ok s" using assms by (rule store_invD)
  show "sameBurstTarget s e \<noteq> None \<Longrightarrow> ring (Add s e) = ring s \<and> nextID (Add s e) = nextID s"
    using ring_cong [of "s\<lparr>byID := m\<rparr>" s for m] by (auto simp: Add_def)
  show "sameBurstTarget s e = None \<Longrightarrow>
      ring (Add s e) = (if length (ring s) = maxSize s then tl (ring s) else ring s) @ [nextID s]
      \<and> nextID (Add s e) = nextID s + 1"
    using full_iff [OF ok]
    by (simp add: Add_def ring_insertEvent [OF ok] survivors_def insertEvent_frame pushRing_def Let_def contents_def)
qed

lemma Add_contents:
  assumes "store_inv s"
  shows "contents (Add s e) = spec_add (maxSize s) (contents s) e"
proof -
  let ?P = "\<lambda>i. same_key e (event_of (byID s) i)"
  have ok: "ring_ok s" using assms by (rule store_invD)
  have filt: "filter (same_key e) (contents s) = map (event_of (byID s)) (filter ?P (ring s))"
    by (simp add: contents_def filter_map comp_def)
  show ?thesis
  proof (cases "sameBurstTarget s e")
    case None
    then have "\<not> (InvolvedObjectUID e \<noteq> '''' \<and> filter ?P (ring s) \<noteq> []
        \<and> isSameBurst e (event_of (byID s) (last (filter ?P (ring s)))))"
      by (simp add: sameBurstTarget_spec [OF assms] Let_def split: if_splits)
    with None show ?thesis
      by (auto simp: Add_def spec_add_def contents_insertEvent [OF assms] full_iff [OF ok] filt last_map)
  next
    case (Some p)
    obtain i x where p: "p = (i, x)" by (cases p)
    from Some p have c: "InvolvedObjectUID e \<noteq> ''''" "filter ?P (ring s) \<noteq> []"
      "i = last (filter ?P (ring s))" "x = event_of (byID s) i" "isSameBurst e x"
      by (auto simp: sameBurstTarget_spec [OF assms] Let_def split: if_splits)
    have "contents (Add s e) = map ((event_of (byID s))(i := updateBurst e x)) (ring s)"
      using Some p ring_cong [of "s\<lparr>byID := fmupd i (updateBurst e x) (byID s)\<rparr>" s]
      by (auto simp: Add_def contents_def event_of_fmupd)
    also have "\<dots> = update_last (same_key e) (updateBurst e) (contents s)"
      using map_update_last [where P = "same_key e" and g = "event_of (byID s)" and f = "updateBurst e",
          OF distinct_ring [OF ok] c(2,3)] c(4)
      by (simp only: contents_def)
    finally show ?thesis using c by (simp add: spec_add_def filt last_map)
  qed
qed

section \<open>Sorting\<close>

text \<open>The inner loop inserts the element behind the ones that are not earlier than it.\<close>

definition later_than :: "NormalizedEvent \<Rightarrow> NormalizedEvent \<Rightarrow> bool" where
  "later_than x y \<longleftrightarrow> After (LastSeen x) (LastSeen y)"

definition insertDesc :: "NormalizedEvent \<Rightarrow> NormalizedEvent list \<Rightarrow> NormalizedEvent list" where
  "insertDesc x xs =
     rev (dropWhile (later_than x) (rev xs)) @ x # rev (takeWhile (later_than x) (rev xs))"

lemma swap_adjacent:
  "length pre = j \<Longrightarrow> swap (pre @ y # x # post) (Suc j) j = pre @ x # y # post"
  by (simp add: swap_def nth_append list_update_append)

lemma siftDown_insertDesc:
  "siftDown (pre @ x # post) (length pre) = insertDesc x pre @ post"
proof (induction pre arbitrary: post rule: rev_induct)
  case Nil
  then show ?case by (simp add: insertDesc_def)
next
  case (snoc y pre)
  show ?case
  proof (cases "later_than x y")
    case True
    then have "siftDown (pre @ y # x # post) (Suc (length pre)) = siftDown (pre @ x # y # post) (length pre)"
      by (simp add: later_than_def nth_append swap_adjacent)
    with True snoc [of "y # post"] show ?thesis by (simp add: insertDesc_def)
  next
    case False
    then show ?thesis by (simp add: later_than_def insertDesc_def nth_append)
  qed
qed

abbreviation desc_key :: "NormalizedEvent \<Rightarrow> int" where
  "desc_key e \<equiv> - LastSeen e"

text \<open>Inserting into a sorted list this way is one step of the stable sort.\<close>

lemma insertDesc_sort_key: "insertDesc x (sort_key desc_key xs) = sort_key desc_key (xs @ [x])"
proof -
  let ?s = "sort_key desc_key xs"
  let ?A = "rev (dropWhile (later_than x) (rev ?s))" and ?B = "rev (takeWhile (later_than x) (rev ?s))"
  have AB: "?A @ ?B = ?s"
    by (metis rev_append rev_rev_ident takeWhile_dropWhile_id)
  then have sorted: "sorted (map desc_key (?A @ ?B))" by simp
  have B: "y \<in> set ?B \<Longrightarrow> LastSeen y < LastSeen x" for y
    by (auto simp: later_than_def dest: set_takeWhileD)
  have A: "LastSeen x \<le> LastSeen y" if "y \<in> set ?A" for y
  proof -
    let ?d = "dropWhile (later_than x) (rev ?s)"
    have "y \<in> set ?d" using that by (simp only: set_rev)
    then have "?d \<noteq> []" by (metis empty_iff empty_set)
    then have hd: "LastSeen x \<le> LastSeen (hd ?d)"
      using hd_dropWhile [of "later_than x" "rev ?s"] by (simp add: later_than_def)
    have "sorted (map desc_key ?A)" using sorted by (simp add: sorted_append)
    then have "LastSeen (hd ?d) \<le> LastSeen y"
      using that \<open>?d \<noteq> []\<close> by (cases ?d) (auto simp: sorted_append)
    with hd show ?thesis by simp
  qed
  have "sort_key desc_key (xs @ [x]) = ?A @ x # ?B"
  proof (rule properties_for_sort_key)
    have "mset (?A @ ?B) = mset xs" using AB by simp
    then show "mset (?A @ x # ?B) = mset (xs @ [x])" by simp
    show "sorted (map desc_key (?A @ x # ?B))"
      using sorted A B by (auto simp: sorted_append intro: less_imp_le)
    fix k
    have "filter (\<lambda>z. desc_key k = desc_key z) (?A @ ?B) = filter (\<lambda>z. desc_key k = desc_key z) xs"
      by (simp only: AB eq_commute [of "desc_key k"] sort_key_stable)
    moreover have "filter (\<lambda>z. desc_key k = desc_key z) ?B = []" if "desc_key k = desc_key x"
      using B that by (fastforce simp: filter_empty_conv)
    ultimately show "filter (\<lambda>z. desc_key k = desc_key z) (?A @ x # ?B)
        = filter (\<lambda>z. desc_key k = desc_key z) (xs @ [x])"
      by auto
  qed
  then show ?thesis by (simp add: insertDesc_def)
qed

lemma sort_loop:
  "n \<le> length evs \<Longrightarrow> 0 < n \<Longrightarrow>
   foldl siftDown evs [1 ..< n] = sort_key desc_key (take n evs) @ drop n evs"
proof (induction n)
  case 0
  then show ?case by simp
next
  case (Suc n)
  show ?case
  proof (cases "n = 0")
    case True
    with Suc.prems show ?thesis by (cases evs) simp_all
  next
    case False
    let ?s = "sort_key desc_key (take n evs)"
    have len: "length ?s = n" using Suc.prems by simp
    have "foldl siftDown evs [1 ..< Suc n] = siftDown (?s @ drop n evs) n"
      using Suc False by simp
    also have "\<dots> = siftDown (?s @ evs ! n # drop (Suc n) evs) (length ?s)"
      using Suc.prems len by (simp add: Cons_nth_drop_Suc)
    also have "\<dots> = sort_key desc_key (take (Suc n) evs) @ drop (Suc n) evs"
      using Suc.prems
      by (simp only: siftDown_insertDesc insertDesc_sort_key) (simp add: take_Suc_conv_app_nth)
    finally show ?thesis .
  qed
qed

lemma sortByLastSeenDesc_sort_key: "sortByLastSeenDesc evs = sort_key desc_key evs"
  using sort_loop [of "length evs" evs] by (cases evs) (simp_all add: sortByLastSeenDesc_def)

section \<open>Queries\<close>

lemma foldl_choice: "foldl (\<lambda>m s. if P s m then s else m) a ys \<in> insert a (set ys)"
proof (induction ys arbitrary: a)
  case Nil
  then show ?case by simp
next
  case (Cons y ys)
  then show ?case using Cons [of a] Cons [of y] by auto
qed

lemma smallest_mem: "sets \<noteq> [] \<Longrightarrow> smallest sets \<in> set sets"
  using foldl_choice [of "\<lambda>s m. card s < card m" "hd sets" "tl sets"]
  by (cases sets) (simp_all add: smallest_def)

lemma intersect_Inter: "sets \<noteq> [] \<Longrightarrow> intersect sets = \<Inter> (set sets)"
  using smallest_mem [of sets] by (auto simp: intersect_def list_all_iff)

text \<open>The candidates are the live ids whose event has the filter's indexed fields.\<close>

lemma candidateIDs_spec:
  assumes "store_inv s"
  shows "candidateIDs s f =
    {i \<in> set (ring s). matches (f\<lparr>f_Since := zero_time\<rparr>) (event_of (byID s) i)}"
proof -
  note bk = bookkeepingD [OF store_invD(2) [OF assms]]
  note idx = nsIdx.index_lookup [OF bk(6)] uidIdx.index_lookup [OF bk(7)] reasonIdx.index_lookup [OF bk(8)]
  show ?thesis
    by (auto simp: candidateIDs_def Let_def intersect_Inter matches_def idx bk(2))
qed

lemma collect_map:
  assumes "\<forall>i \<in> set ids. i \<in> fmdom' (byID s)"
  shows "collect s f ids =
    filter (\<lambda>e. IsZero (f_Since f) \<or> f_Since f \<le> LastSeen e) (map (event_of (byID s)) ids)"
  using assms by (induction ids) (auto simp: event_of_def fmdom'_iff)

text \<open>What is collected is the matching events of the store, in some order.\<close>

lemma mset_collect:
  assumes "go_range rng" "store_inv s"
  shows "mset (collect s f (rng (candidateIDs s f))) = filter_mset (matches f) (mset (contents s))"
proof -
  note rng = go_range.set_rng [OF assms(1)] go_range.mset_rng [OF assms(1)]
  let ?C = "candidateIDs s f" and ?ev = "event_of (byID s)"
  let ?since = "\<lambda>e. IsZero (f_Since f) \<or> f_Since f \<le> LastSeen e"
  note bk = bookkeepingD [OF store_invD(2) [OF assms(2)]]
  have fin: "finite ?C" by (simp add: candidateIDs_spec [OF assms(2)])
  have sub: "\<forall>i \<in> set (rng ?C). i \<in> fmdom' (byID s)"
    using rng(1) [OF fin] bk(2) by (auto simp: candidateIDs_spec [OF assms(2)])
  have "mset (rng ?C) = mset_set ?C" by (rule rng(2) [OF fin])
  also have "\<dots> = mset_set (set (filter (\<lambda>i. matches (f\<lparr>f_Since := zero_time\<rparr>) (?ev i)) (ring s)))"
    by (simp add: candidateIDs_spec [OF assms(2)] Set.filter_eq)
  also have "\<dots> = mset (filter (\<lambda>i. matches (f\<lparr>f_Since := zero_time\<rparr>) (?ev i)) (ring s))"
    using bk(1) by (intro mset_set_set) simp
  finally have "mset (map ?ev (rng ?C)) =
      filter_mset (matches (f\<lparr>f_Since := zero_time\<rparr>)) (mset (contents s))"
    by (simp add: contents_def filter_mset_image_mset comp_def)
  then have "mset (filter ?since (map ?ev (rng ?C))) =
      filter_mset ?since (filter_mset (matches (f\<lparr>f_Since := zero_time\<rparr>)) (mset (contents s)))"
    by simp
  also have "\<dots> = filter_mset (matches f) (mset (contents s))"
    by (auto simp: filter_filter_mset matches_def intro!: filter_mset_cong)
  finally show ?thesis by (simp add: collect_map [OF sub])
qed

text \<open>A prefix of a sorted list keeps the newest events; the rest is not newer.\<close>

lemma take_sorted_desc:
  assumes "out = sort_key desc_key xs"
  shows "sorted_wrt (\<lambda>a b. LastSeen b \<le> LastSeen a) (take n out)"
    and "\<forall>x \<in> set (drop n out). \<forall>y \<in> set (take n out). LastSeen x \<le> LastSeen y"
proof -
  have "sorted (map desc_key out)" using assms by simp
  then have sorted: "sorted_wrt (\<lambda>a b. LastSeen b \<le> LastSeen a) out"
    by (simp add: sorted_map)
  then show "sorted_wrt (\<lambda>a b. LastSeen b \<le> LastSeen a) (take n out)"
    by (simp add: sorted_wrt_take)
  show "\<forall>x \<in> set (drop n out). \<forall>y \<in> set (take n out). LastSeen x \<le> LastSeen y"
    using sorted sorted_wrt_append [of "\<lambda>a b. LastSeen b \<le> LastSeen a" "take n out" "drop n out"]
    by simp
qed

text \<open>The sort of the store meets the contract of \<open>slice_sort\<close>, with the keys negated.\<close>

interpretation storeSort: slice_sort sortByLastSeenDesc desc_key
  using slice_sort_sort_key [of desc_key] by (simp add: sortByLastSeenDesc_sort_key [abs_def])

text \<open>How many events a query returns, given how many match.\<close>

definition limited :: "go_int \<Rightarrow> nat \<Rightarrow> nat" where
  "limited lim n = (if 0 < sint lim then min (nat (sint lim)) n else n)"

lemma Query_sorted_take:
  "Query rng s f =
     (let out = sort_key desc_key (collect s f (rng (candidateIDs s f)))
      in take (limited (f_Limit f) (length out)) out)"
  by (auto simp: Query_def Let_def sortByLastSeenDesc_sort_key limited_def nat_less_iff min_def)

lemma Query_spec:
  assumes "go_range rng" "store_inv s"
  shows "\<exists>rest. filter_mset (matches f) (mset (contents s)) = mset (Query rng s f) + mset rest
    \<and> sorted_wrt (\<lambda>a b. LastSeen b \<le> LastSeen a) (Query rng s f)
    \<and> (\<forall>x \<in> set rest. \<forall>y \<in> set (Query rng s f). LastSeen x \<le> LastSeen y)
    \<and> length (Query rng s f) = limited (f_Limit f) (length (filter (matches f) (contents s)))"
proof -
  let ?c = "collect s f (rng (candidateIDs s f))"
  let ?out = "sort_key desc_key ?c"
  let ?n = "limited (f_Limit f) (length ?out)"
  have m: "mset ?c = mset (filter (matches f) (contents s))"
    using mset_collect [OF assms] by simp
  then have len: "length ?out = length (filter (matches f) (contents s))"
    using mset_eq_length [OF m] by simp
  have q: "Query rng s f = take ?n ?out" by (simp add: Query_sorted_take Let_def)
  have "mset ?out = mset (take ?n ?out) + mset (drop ?n ?out)"
    by (metis append_take_drop_id mset_append)
  moreover have "?n \<le> length ?out" by (simp add: limited_def)
  ultimately show ?thesis
    using take_sorted_desc [OF refl, of ?n ?c] m len q
    by (intro exI [of _ "drop ?n ?out"]) simp
qed

section \<open>Summaries\<close>

text \<open>The group of a reason after a fold, as a function of the events with that reason.\<close>

definition group_of :: "NormalizedEvent list \<Rightarrow> group" where
  "group_of es =
     \<lparr> g_count = sum_list (map Count es), g_objects = InvolvedObjectName ` set es,
       g_lastSeen = Max (insert zero_time (LastSeen ` set es)) \<rparr>"

lemma group_of_snoc:
  "group_of (es @ [e]) =
     \<lparr> g_count = g_count (group_of es) + Count e,
       g_objects = insert (InvolvedObjectName e) (g_objects (group_of es)),
       g_lastSeen = max (g_lastSeen (group_of es)) (LastSeen e) \<rparr>"
proof -
  have "Max (insert zero_time (insert a A)) = max (Max (insert zero_time A)) a" if "finite A" for a A
    using that by (subst insert_commute) (simp add: max.commute)
  then show ?thesis by (simp add: group_of_def)
qed

lemma foldl_addToGroup:
  "fmlookup (foldl addToGroup fmempty evs) r =
     (let es = filter (\<lambda>e. Reason e = r) evs in if es = [] then None else Some (group_of es))"
proof (induction evs rule: rev_induct)
  case Nil
  then show ?case by simp
next
  case (snoc e evs)
  then show ?case
    by (auto simp: addToGroup_def Let_def goget_def group_of_snoc) (simp_all add: group_of_def)
qed

lemma group_of_mset_cong:
  assumes "mset xs = mset ys"
  shows "group_of xs = group_of ys"
proof -
  have "set xs = set ys" using assms by (metis set_mset_mset)
  moreover have "sum_list (map Count xs) = sum_list (map Count ys)"
    using assms by (metis mset_map sum_mset_sum_list)
  ultimately show ?thesis by (simp add: group_of_def)
qed

definition in_scope :: "string \<Rightarrow> time \<Rightarrow> NormalizedEvent \<Rightarrow> bool" where
  "in_scope ns since e \<longleftrightarrow> (ns = '''' \<or> Namespace e = ns) \<and> (IsZero since \<or> since \<le> LastSeen e)"

lemma Query_unlimited:
  assumes "go_range rng" "store_inv s" "f_Limit f = 0"
  shows "mset (Query rng s f) = filter_mset (matches f) (mset (contents s))"
  using Query_sorted_take [of rng s f] mset_collect [OF assms(1,2), of f] assms(3)
  by (simp add: Let_def limited_def)

lemma SummarizeNamespace_spec:
  assumes "go_range rng" "go_range srng" "store_inv s"
    and "evs = filter (in_scope ns since) (contents s)"
    and "by_reason = (\<lambda>r. filter (\<lambda>e. Reason e = r) evs)"
  shows "map ns_Reason (SummarizeNamespace rng srng s ns since) = srng (Reason ` set evs)"
    and "g \<in> set (SummarizeNamespace rng srng s ns since) \<Longrightarrow>
      by_reason (ns_Reason g) \<noteq> []
      \<and> ns_TotalCount g = sum_list (map Count (by_reason (ns_Reason g)))
      \<and> ns_Objects g = srng (InvolvedObjectName ` set (by_reason (ns_Reason g)))
      \<and> ns_LastSeen g = Max (insert zero_time (LastSeen ` set (by_reason (ns_Reason g))))"
proof -
  let ?f = "\<lparr>f_Namespace = ns, f_ObjectUID = '''', f_Reason = '''', f_Since = since, f_Limit = 0\<rparr>"
  let ?q = "Query rng s ?f"
  let ?groups = "foldl addToGroup fmempty ?q"
  have "matches ?f = in_scope ns since"
    by (rule ext) (simp add: matches_def in_scope_def)
  then have m: "mset ?q = mset evs"
    using Query_unlimited [OF assms(1,3), of ?f] assms(4) by simp
  then have "mset (filter (\<lambda>e. Reason e = r) ?q) = mset (by_reason r)" for r
    using assms(5) by simp
  then have look: "fmlookup ?groups r =
      (if by_reason r = [] then None else Some (group_of (by_reason r)))" for r
    unfolding foldl_addToGroup Let_def
    by (metis group_of_mset_cong mset_zero_iff)
  have dom: "fmdom' ?groups = Reason ` set evs"
    using assms(5) by (auto simp: fmdom'_iff look filter_empty_conv split: if_splits)
  have eq: "SummarizeNamespace rng srng s ns since = map (toSummary srng ?groups) (srng (Reason ` set evs))"
    by (simp add: SummarizeNamespace_def Let_def dom)
  show "map ns_Reason (SummarizeNamespace rng srng s ns since) = srng (Reason ` set evs)"
    by (simp add: eq toSummary_def Let_def comp_def)
  assume "g \<in> set (SummarizeNamespace rng srng s ns since)"
  then obtain r where "r \<in> Reason ` set evs" "g = toSummary srng ?groups r"
    using go_range.set_rng [OF assms(2)] by (auto simp: eq)
  moreover have "by_reason r \<noteq> []" if "r \<in> Reason ` set evs"
    using that assms(5) by (auto simp: filter_empty_conv)
  ultimately show "by_reason (ns_Reason g) \<noteq> []
      \<and> ns_TotalCount g = sum_list (map Count (by_reason (ns_Reason g)))
      \<and> ns_Objects g = srng (InvolvedObjectName ` set (by_reason (ns_Reason g)))
      \<and> ns_LastSeen g = Max (insert zero_time (LastSeen ` set (by_reason (ns_Reason g))))"
    by (simp add: toSummary_def Let_def look group_of_def)
qed

section \<open>The store as an interface\<close>

text \<open>
  What the users of the store (the watcher's pipeline, the gRPC server) rely on: it starts
  empty, adding keeps its invariant and its capacity, and adding is the specification's step
  on its items.
\<close>

locale event_buffer =
  fixes new :: 's and add :: "'s \<Rightarrow> 'e \<Rightarrow> 's" and items :: "'s \<Rightarrow> 'e list"
    and invar :: "'s \<Rightarrow> bool" and cap :: "'s \<Rightarrow> nat"
    and spec :: "nat \<Rightarrow> 'e list \<Rightarrow> 'e \<Rightarrow> 'e list"
  assumes invar_new: "invar new"
    and items_new: "items new = []"
    and invar_add: "invar s \<Longrightarrow> invar (add s e)"
    and cap_add: "cap (add s e) = cap s"
    and items_add: "invar s \<Longrightarrow> items (add s e) = spec (cap s) (items s) e"
    and spec_bounded: "0 < c \<Longrightarrow> length l \<le> c \<Longrightarrow> length (spec c l e) \<le> c"
    and cap_pos: "0 < cap new"
begin

lemma run_cap: "cap (foldl add s es) = cap s"
  by (induction es arbitrary: s) (simp_all add: cap_add)

lemma run_invar: "invar (foldl add new es)"
  by (induction es rule: rev_induct) (simp_all add: invar_new invar_add)

lemma run_items: "items (foldl add new es) = foldl (spec (cap new)) [] es"
  by (induction es rule: rev_induct) (simp_all add: items_new items_add run_invar run_cap)

lemma run_bounded: "length (items (foldl add new es)) \<le> cap new"
  unfolding run_items by (induction es rule: rev_induct) (simp_all add: spec_bounded cap_pos)

end

lemma spec_add_bounded: "0 < c \<Longrightarrow> length l \<le> c \<Longrightarrow> length (spec_add c l e) \<le> c"
  by (auto simp: spec_add_def)

lemma New_maxSize: "maxSize (New n) = (if sint n \<le> 0 then DefaultMaxSize else nat (sint n))"
  by (simp add: New_def Let_def)

interpretation buf: event_buffer "New n" Add contents store_inv maxSize spec_add for n
proof
  show "contents (New n) = []" by (simp add: New_def Let_def contents_def ring_def)
  show "0 < maxSize (New n)" by (simp add: New_maxSize DefaultMaxSize_def)
qed (simp_all add: New_inv Add_inv Add_contents spec_add_bounded)

section \<open>Examples\<close>

definition exampleEvents :: "NormalizedEvent list" where
  "exampleEvents =
     [exampleEvent ''a'' [] ''r'' 1 1 10, exampleEvent ''b'' [] ''r'' 1 1 20,
      exampleEvent ''a'' [] ''q'' 1 1 30, exampleEvent ''a'' [] ''r'' 1 1 20]"

text \<open>Three slots, four events: the oldest one is evicted.\<close>

definition exampleStore :: Store where
  "exampleStore = foldl Add (New 3) exampleEvents"

definition exampleFilter :: Filter where
  "exampleFilter =
     \<lparr>f_Namespace = ''a'', f_ObjectUID = [], f_Reason = [], f_Since = zero_time, f_Limit = 1\<rparr>"

text \<open>A store whose id counter wraps around.\<close>

definition wrappingStore :: Store where
  "wrappingStore =
     Add (Add (Add ((New 2)\<lparr>nextID := -1\<rparr>) (exampleEvent ''a'' [] ''r'' 1 5 5))
       (exampleEvent ''a'' [] ''r'' 1 6 6)) (exampleEvent ''a'' [] ''r'' 1 7 7)"

section \<open>Properties\<close>

text \<open>
  C2. The ring buffer, the dedup history, the eviction bookkeeping and the inverted indexes
  implement a bounded list: after any sequence of \<^verbatim>\<open>Add\<close> calls on a store made by
  \<^verbatim>\<open>New\<close>, the internal invariant holds, the stored events oldest first are exactly what
  the list specification computes, and there are at most \<^verbatim>\<open>maxSize\<close> of them.
\<close>

theorem store_refines_list:
  "store_inv (foldl Add (New n) es)
   \<and> contents (foldl Add (New n) es) = foldl (spec_add (maxSize (New n))) [] es
   \<and> length (contents (foldl Add (New n) es)) \<le> maxSize (New n)"
  using buf.run_invar buf.run_items buf.run_bounded by blast

text \<open>
  C3. \<^verbatim>\<open>Query\<close> answers from the indexes what scanning all stored events would: the
  result and the events left out by the limit are together exactly the stored events that
  match the filter, the result is in descending order of \<^verbatim>\<open>LastSeen\<close>, no omitted event
  is newer than a returned one, and the result has as many events as the limit allows,
  whatever the order in which the runtime enumerates the candidate set.
\<close>

theorem Query_correct:
  assumes "go_range rng"
  shows "let s = foldl Add (New n) es; out = Query rng s f in
    \<exists>rest. filter_mset (matches f) (mset (contents s)) = mset out + mset rest
      \<and> sorted_wrt (\<lambda>a b. LastSeen b \<le> LastSeen a) out
      \<and> (\<forall>x \<in> set rest. \<forall>y \<in> set out. LastSeen x \<le> LastSeen y)
      \<and> length out = limited (f_Limit f) (length (filter (matches f) (contents s)))"
  unfolding Let_def by (rule Query_spec [OF assms buf.run_invar])

theorem Query_correct_witness:
  "map LastSeen (Query sorted_list_of_set exampleStore exampleFilter) = [30]
   \<and> sorted_wrt (\<lambda>a b. LastSeen b \<le> LastSeen a) (Query sorted_list_of_set exampleStore exampleFilter)
   \<and> length (Query sorted_list_of_set exampleStore exampleFilter)
       = limited 1 (length (filter (matches exampleFilter) (contents exampleStore)))"
proof -
  have lim: "f_Limit exampleFilter = 1" by (simp add: exampleFilter_def)
  have "sorted_wrt (\<lambda>a b. LastSeen b \<le> LastSeen a) (Query sorted_list_of_set exampleStore exampleFilter)
   \<and> length (Query sorted_list_of_set exampleStore exampleFilter)
       = limited 1 (length (filter (matches exampleFilter) (contents exampleStore)))"
    using Query_correct [OF go_range_sorted, of 3 exampleEvents exampleFilter]
    unfolding Let_def lim exampleStore_def by blast
  moreover have "map LastSeen (Query sorted_list_of_set exampleStore exampleFilter) = [30]"
    by code_simp
  ultimately show ?thesis by simp
qed

text \<open>
  C21. Ids are unique and recycled in order. After any sequence of \<^verbatim>\<open>Add\<close> calls the live ids are
  distinct and the next id is fresh, whatever the 64-bit counter started from, so also when it wraps
  around; the primary map holds exactly the ids of the ring, and \<^verbatim>\<open>Len\<close> is their number, at most
  the capacity. One more \<^verbatim>\<open>Add\<close> either continues an episode, and then no id changes, or it gives the
  next id to the new event, advances the counter by one and, in a full store only, drops the
  oldest id.
\<close>

theorem store_ids_unique:
  "let s = foldl Add ((New n)\<lparr>nextID := start\<rparr>) es; s' = Add s e in
     distinct (ring s) \<and> nextID s \<notin> set (ring s) \<and> fmdom' (byID s) = set (ring s)
     \<and> Len s = length (ring s) \<and> Len s \<le> maxSize (New n)
     \<and> (if InvolvedObjectUID e \<noteq> '''' \<and> filter (same_key e) (contents s) \<noteq> []
           \<and> isSameBurst e (last (filter (same_key e) (contents s)))
        then ring s' = ring s \<and> nextID s' = nextID s
        else ring s' = (if Len s = maxSize (New n) then tl (ring s) else ring s) @ [nextID s]
             \<and> nextID s' = nextID s + 1)"
proof -
  define s where "s = foldl Add ((New n)\<lparr>nextID := start\<rparr>) es"
  have inv: "store_inv s" unfolding s_def by (rule foldl_Add_inv [OF New_counter_inv])
  note bk = bookkeepingD [OF store_invD(2) [OF inv]]
  have ok: "ring_ok s" using inv by (rule store_invD)
  have size: "maxSize s = maxSize (New n)"
    unfolding s_def by (induction es rule: rev_induct) simp_all
  have len: "Len s = length (ring s)" using bk(1,2) by (simp add: Len_def distinct_card)
  have ids: "if InvolvedObjectUID e \<noteq> '''' \<and> filter (same_key e) (contents s) \<noteq> []
           \<and> isSameBurst e (last (filter (same_key e) (contents s)))
        then ring (Add s e) = ring s \<and> nextID (Add s e) = nextID s
        else ring (Add s e) = (if Len s = maxSize (New n) then tl (ring s) else ring s) @ [nextID s]
             \<and> nextID (Add s e) = nextID s + 1"
    using Add_ids [OF inv, of e] sameBurstTarget_None [OF inv, of e] unfolding len size by argo
  show ?thesis
    unfolding Let_def s_def [symmetric]
    using bk(1,2) fresh_nextID [OF ok] length_ring_le [OF ok, unfolded size] len ids by (intro conjI) (simp_all only: not_False_eq_True)
qed

theorem store_ids_unique_witness:
  "ring wrappingStore = [0, 1] \<and> distinct (ring wrappingStore) \<and> Len wrappingStore = 2"
proof -
  have "wrappingStore = foldl Add ((New 2)\<lparr>nextID := -1\<rparr>)
      [exampleEvent ''a'' [] ''r'' 1 5 5, exampleEvent ''a'' [] ''r'' 1 6 6, exampleEvent ''a'' [] ''r'' 1 7 7]"
    (is "_ = foldl Add _ ?es")
    by (simp add: wrappingStore_def)
  note this [symmetric]
  note ids = store_ids_unique [where n = 2 and start = "-1" and es = ?es, unfolded Let_def this]
  have "distinct (ring wrappingStore) \<and> Len wrappingStore = length (ring wrappingStore)"
    by (intro conjI) (rule ids [THEN conjunct1] ids [THEN conjunct2, THEN conjunct2, THEN conjunct2, THEN conjunct1])+
  moreover have "ring wrappingStore = [0, 1]" by code_simp
  ultimately show ?thesis by simp
qed

text \<open>
  C23. The dedup history of a key is at any time the list of the newest live episodes of
  that object and reason, oldest first and at most \<^verbatim>\<open>maxBurstsPerKey\<close> of them; events
  without an object UID have no history; and the reverse map used on eviction records
  exactly the ids that are in a history.
\<close>

theorem dedup_history_exact:
  "let s = foldl Add (New n) es in
     goget [] (dedupIdx s) k =
       (if sk_objectUID k = '''' then []
        else lastn maxBurstsPerKey (filter (\<lambda>i. key_of (event_of (byID s) i) = k) (ring s)))
     \<and> (fmlookup (evictIdx s) i = Some k) = (i \<in> set (goget [] (dedupIdx s) k))
     \<and> fmlookup (dedupIdx s) k \<noteq> Some []"
  using bookkeepingD(3-5) [OF store_invD(2) [OF buf.run_invar]] by (simp add: Let_def hist_def)

text \<open>
  C22. The inverted indexes are exact and hold no empty buckets: the id set under a
  namespace, an object UID or a reason is the set of live events with that value, and the
  empty string is never indexed.
\<close>

theorem indexes_exact:
  "let s = foldl Add (New n) es;
       live = (\<lambda>sel k. {i. \<exists>e. fmlookup (byID s) i = Some e \<and> sel e = k});
       exact = (\<lambda>idx sel. (\<forall>k. goget {} idx k = (if k = '''' then {} else live sel k)
                              \<and> fmlookup idx k \<noteq> Some {}))
   in exact (byNamespace s) Namespace \<and> exact (byUID s) InvolvedObjectUID \<and> exact (byReason s) Reason"
  using bookkeepingD(6-8) [OF store_invD(2) [OF buf.run_invar [of n es]]]
  by (simp add: Let_def index_ok_def)

text \<open>
  C24. The in-place exchange sort of \<^verbatim>\<open>sortByLastSeenDesc\<close> computes the stable sort by
  descending \<^verbatim>\<open>LastSeen\<close>: events with the same instant keep their order.
\<close>

theorem sortByLastSeenDesc_stable_sort:
  "sortByLastSeenDesc evs = sort_key (\<lambda>e. - LastSeen e) evs"
  by (rule sortByLastSeenDesc_sort_key)

text \<open>
  What \<^verbatim>\<open>Add\<close> does to an event that continues a burst: only the newest stored event
  with its object and reason changes. It takes the incoming count, keeps the later last-seen
  instant with the message that belongs to it, keeps the earlier non-zero first-seen instant,
  and takes the incoming owner chain unless that is empty; the number of stored events stays.
\<close>

theorem Add_same_burst:
  assumes "s = foldl Add (New n) es" "InvolvedObjectUID e \<noteq> ''''"
    and "filter (same_key e) (contents s) \<noteq> []"
    and "x = last (filter (same_key e) (contents s))" "isSameBurst e x"
  shows "contents (Add s e) = update_last (same_key e) (updateBurst e) (contents s)
    \<and> length (contents (Add s e)) = length (contents s)
    \<and> updateBurst e x = x\<lparr>
        Count := Count e,
        LastSeen := max (LastSeen x) (LastSeen e),
        Message := (if LastSeen x < LastSeen e then Message e else Message x),
        FirstSeen := (if IsZero (FirstSeen e) then FirstSeen x
                      else if IsZero (FirstSeen x) then FirstSeen e
                      else min (FirstSeen x) (FirstSeen e)),
        OwnerChain := (if OwnerChain e = [] then OwnerChain x else OwnerChain e)\<rparr>"
proof -
  have "contents (Add s e) = update_last (same_key e) (updateBurst e) (contents s)"
    using Add_contents [OF buf.run_invar [of n es]] assms by (simp add: spec_add_def)
  then show ?thesis by (cases x) (auto simp: updateBurst_def Let_def)
qed

theorem Add_same_burst_witness:
  "contents (Add (foldl Add (New 3) [exampleEvent ''a'' ''u'' ''BackOff'' 2 10 20])
     (exampleEvent ''a'' ''u'' ''BackOff'' 5 10 40)) = [exampleEvent ''a'' ''u'' ''BackOff'' 5 10 40]"
proof -
  let ?s = "foldl Add (New 3) [exampleEvent ''a'' ''u'' ''BackOff'' 2 10 20]"
  let ?e = "exampleEvent ''a'' ''u'' ''BackOff'' 5 10 40"
  have c: "contents ?s = [exampleEvent ''a'' ''u'' ''BackOff'' 2 10 20]" by code_simp
  have "contents (Add ?s ?e) = update_last (same_key ?e) (updateBurst ?e) (contents ?s)"
    by (rule Add_same_burst [OF refl _ _ refl, THEN conjunct1]; code_simp)
  also have "\<dots> = [?e]"
    unfolding c by code_simp
  finally show ?thesis .
qed

text \<open>
  C19. \<^verbatim>\<open>SummarizeNamespace\<close> returns one entry per reason that occurs among the stored
  events in scope, each with the sum of their counts (in 32-bit arithmetic), the set of their
  object names without repetition, and their latest instant.
\<close>

theorem SummarizeNamespace_correct:
  assumes "go_range rng" "go_range srng" "s = foldl Add (New n) es"
    and "evs = filter (in_scope ns since) (contents s)"
    and "by_reason = (\<lambda>r. filter (\<lambda>e. Reason e = r) evs)"
    and "out = SummarizeNamespace rng srng s ns since"
  shows "distinct (map ns_Reason out) \<and> set (map ns_Reason out) = Reason ` set evs
    \<and> (\<forall>g \<in> set out.
         ns_TotalCount g = sum_list (map Count (by_reason (ns_Reason g)))
         \<and> distinct (ns_Objects g)
         \<and> set (ns_Objects g) = InvolvedObjectName ` set (by_reason (ns_Reason g))
         \<and> ns_LastSeen g = Max (insert zero_time (LastSeen ` set (by_reason (ns_Reason g)))))"
proof -
  note rng = go_range.set_rng [OF assms(2)] go_range.distinct_rng [OF assms(2)]
  have inv: "store_inv s" using buf.run_invar assms(3) by simp
  note spec = SummarizeNamespace_spec [OF assms(1,2) inv assms(4,5), folded assms(6)]
  have "distinct (map ns_Reason out) \<and> set (map ns_Reason out) = Reason ` set evs"
    unfolding spec(1) by (simp add: rng)
  with spec(2) show ?thesis by (simp add: rng)
qed

theorem SummarizeNamespace_correct_witness:
  "map ns_Reason (SummarizeNamespace sorted_list_of_set sorted_list_of_set exampleStore ''a'' 0)
     = [''q'', ''r'']
   \<and> distinct (map ns_Reason
       (SummarizeNamespace sorted_list_of_set sorted_list_of_set exampleStore ''a'' 0))"
proof -
  have "distinct (map ns_Reason
      (SummarizeNamespace sorted_list_of_set sorted_list_of_set exampleStore ''a'' 0))"
    by (rule SummarizeNamespace_correct
        [OF go_range_sorted go_range_sorted exampleStore_def refl refl refl, THEN conjunct1])
  moreover have "map ns_Reason
      (SummarizeNamespace sorted_list_of_set sorted_list_of_set exampleStore ''a'' 0) = [''q'', ''r'']"
    by code_simp
  ultimately show ?thesis by simp
qed

text \<open>
  A key can have more than \<^verbatim>\<open>maxBurstsPerKey\<close> episodes in the store: forgetting an
  episode in the history does not remove it from the ring, and a query returns it.
\<close>

definition sixBursts :: "NormalizedEvent list" where
  "sixBursts = map (\<lambda>k. exampleEvent ''a'' ''u'' ''BackOff'' 1 (k * 10 * burstGap) (k * 10 * burstGap)) [1..6]"

lemma more_than_maxBurstsPerKey_returned:
  "length (Query sorted_list_of_set (foldl Add (New 10) sixBursts)
     \<lparr>f_Namespace = [], f_ObjectUID = ''u'', f_Reason = ''BackOff'', f_Since = zero_time, f_Limit = 0\<rparr>) = 6
   \<and> maxBurstsPerKey = 5"
  by code_simp

end
