(* ===== verification/Enrichment.thy ===== *)
theory Enrichment
  imports Events Utf8
begin

text \<open>
  Package \<^verbatim>\<open>pkg/enrichment\<close>: the walk along owner references
  (\<^verbatim>\<open>ownerchain.go\<close>) and the object snapshots (\<^verbatim>\<open>snapshot.go\<close>).

  The Kubernetes client is not part of the repository. It is the argument \<open>api\<close>: for each
  kind the program fetches, a function from namespace and name to the error text or the
  object, and the JSON encoding of an object's status. Answers of the API server change over
  time, so a call sequence takes \<open>w :: nat \<Rightarrow> k8s_client\<close>, where \<open>w i\<close> answers the \<open>i\<close>-th
  fetch. An object record has the fields that the program reads of any of the eight API types.
\<close>

section \<open>The client\<close>

record OwnerReference =
  oref_Kind :: string
  oref_Name :: string
  oref_Controller :: "bool option"

record ContainerStateTerminated =
  term_ExitCode :: int32
  term_Reason :: string
  term_Message :: string

record corev1_ContainerStatus =
  kcs_Name :: string
  kcs_Ready :: bool
  kcs_RestartCount :: int32
  kcs_StateRunning :: bool
  kcs_StateWaiting :: "string option"
  kcs_StateTerminated :: "string option"
  kcs_LastTerminated :: "ContainerStateTerminated option"

record k8s_Condition =
  kc_Type :: string
  kc_Status :: string
  kc_Reason :: string
  kc_Message :: string

record k8s_object =
  ko_UID :: string
  ko_OwnerReferences :: "OwnerReference list"
  ko_Labels :: "(string, string) fmap"
  ko_Annotations :: "(string, string) fmap"
  ko_Phase :: string
  ko_ContainerStatuses :: "corev1_ContainerStatus list"
  ko_Conditions :: "k8s_Condition list"

type_synonym getter = "string \<Rightarrow> string \<Rightarrow> string + k8s_object"

record k8s_client =
  Pods :: getter
  ReplicaSets :: getter
  Deployments :: getter
  StatefulSets :: getter
  DaemonSets :: getter
  Jobs :: getter
  CronJobs :: getter
  PersistentVolumeClaims :: getter
  statusJSON :: "k8s_object \<Rightarrow> string"

section \<open>Owner chains\<close>

definition maxChainDepth :: nat where
  "maxChainDepth = 10"

definition ownerRefsOf :: "string + k8s_object \<Rightarrow> string + OwnerReference list \<times> string" where
  "ownerRefsOf r = map_sum (\<lambda>e. e) (\<lambda>obj. (ko_OwnerReferences obj, ko_UID obj)) r"

definition getOwnerRefs ::
  "k8s_client \<Rightarrow> string \<Rightarrow> string \<Rightarrow> string \<Rightarrow> string + OwnerReference list \<times> string" where
  "getOwnerRefs c namespace kind name =
     (if kind = ''Pod'' then ownerRefsOf (Pods c namespace name)
      else if kind = ''ReplicaSet'' then ownerRefsOf (ReplicaSets c namespace name)
      else if kind = ''Deployment'' then ownerRefsOf (Deployments c namespace name)
      else if kind = ''StatefulSet'' then ownerRefsOf (StatefulSets c namespace name)
      else if kind = ''DaemonSet'' then ownerRefsOf (DaemonSets c namespace name)
      else if kind = ''Job'' then ownerRefsOf (Jobs c namespace name)
      else if kind = ''CronJob'' then ownerRefsOf (CronJobs c namespace name)
      else if kind = ''PersistentVolumeClaim'' then ownerRefsOf (PersistentVolumeClaims c namespace name)
      else Inr ([], ''''))"

fun firstController :: "OwnerReference \<Rightarrow> OwnerReference list \<Rightarrow> OwnerReference" where
  "firstController next [] = next"
| "firstController next (o' # os) =
     (if oref_Controller o' = Some True then o' else firstController next os)"

definition nextOwner :: "OwnerReference list \<Rightarrow> OwnerReference" where
  "nextOwner owners = firstController (owners ! 0) owners"

text \<open>
  The loop: \<open>fuel\<close> is \<open>maxChainDepth - i\<close>. The result is the pair that the Go function returns:
  the chain collected so far, and the error if there is one.
\<close>

fun chainLoop ::
  "(nat \<Rightarrow> k8s_client) \<Rightarrow> string \<Rightarrow> nat \<Rightarrow> nat \<Rightarrow> string \<Rightarrow> string \<Rightarrow> OwnerRef list \<Rightarrow> OwnerRef list \<times> string option" where
  "chainLoop w namespace 0 i currentKind currentName chain = (chain, None)"
| "chainLoop w namespace (Suc fuel) i currentKind currentName chain =
     (case getOwnerRefs (w i) namespace currentKind currentName of
        Inl err \<Rightarrow> (chain, Some (''fetch '' @ currentKind @ ''/'' @ currentName @ '': '' @ err))
      | Inr (owners, uid) \<Rightarrow>
          let chain = chain @ [\<lparr>or_Kind = currentKind, or_Name = currentName, or_UID = uid\<rparr>]
          in if owners = [] then (chain, None)
             else chainLoop w namespace fuel (Suc i)
                    (oref_Kind (nextOwner owners)) (oref_Name (nextOwner owners)) chain)"

definition ResolveOwnerChain ::
  "(nat \<Rightarrow> k8s_client) \<Rightarrow> string \<Rightarrow> string \<Rightarrow> string \<Rightarrow> OwnerRef list \<times> string option" where
  "ResolveOwnerChain w namespace kind name = chainLoop w namespace maxChainDepth 0 kind name []"

section \<open>Snapshots\<close>

definition maxTerminationMessageLen :: nat where
  "maxTerminationMessageLen = 256"

record ContainerStatus =
  cs_Name :: string
  cs_Ready :: bool
  cs_RestartCount :: int32
  cs_State :: string
  cs_Reason :: string
  cs_LastTerminationExitCode :: int32
  cs_LastTerminationReason :: string
  cs_LastTerminationMessage :: string

record WorkloadCondition =
  wc_Type :: string
  wc_Status :: string
  wc_Reason :: string
  wc_Message :: string

record ObjectSnapshot =
  os_Namespace :: string
  os_Kind :: string
  os_Name :: string
  os_UID :: string
  os_Phase :: string
  os_Labels :: "(string, string) fmap"
  os_Annotations :: "(string, string) fmap"
  os_OwnerChain :: "OwnerRef list"
  os_RawStatusJSON :: string
  os_ContainerStatuses :: "ContainerStatus list"
  os_WorkloadConditions :: "WorkloadCondition list"

definition truncateMessage :: "string \<Rightarrow> string" where
  "truncateMessage msg =
     (if length msg > maxTerminationMessageLen then take maxTerminationMessageLen msg else msg)"

definition extractContainerStatus :: "corev1_ContainerStatus \<Rightarrow> ContainerStatus" where
  "extractContainerStatus cs =
     (let s = \<lparr> cs_Name = kcs_Name cs, cs_Ready = kcs_Ready cs, cs_RestartCount = kcs_RestartCount cs,
                cs_State = '''', cs_Reason = '''', cs_LastTerminationExitCode = 0,
                cs_LastTerminationReason = '''', cs_LastTerminationMessage = '''' \<rparr>;
          s = (if kcs_StateRunning cs then s \<lparr>cs_State := ''running''\<rparr>
               else case kcs_StateWaiting cs of
                 Some r \<Rightarrow> s \<lparr>cs_State := ''waiting'', cs_Reason := r\<rparr>
               | None \<Rightarrow> (case kcs_StateTerminated cs of
                   Some r \<Rightarrow> s \<lparr>cs_State := ''terminated'', cs_Reason := r\<rparr>
                 | None \<Rightarrow> s))
      in case kcs_LastTerminated cs of
           None \<Rightarrow> s
         | Some t \<Rightarrow> s \<lparr> cs_LastTerminationExitCode := term_ExitCode t,
                        cs_LastTerminationReason := term_Reason t,
                        cs_LastTerminationMessage := truncateMessage (term_Message t) \<rparr>)"

definition extractContainerStatuses :: "corev1_ContainerStatus list \<Rightarrow> ContainerStatus list" where
  "extractContainerStatuses statuses = map extractContainerStatus statuses"

definition workloadCondition :: "k8s_Condition \<Rightarrow> WorkloadCondition" where
  "workloadCondition cond = \<lparr> wc_Type = kc_Type cond, wc_Status = kc_Status cond,
                              wc_Reason = kc_Reason cond, wc_Message = kc_Message cond \<rparr>"

fun deploymentPhase :: "string \<Rightarrow> k8s_Condition list \<Rightarrow> string" where
  "deploymentPhase phase [] = phase"
| "deploymentPhase phase (cond # conds) =
     deploymentPhase (if kc_Type cond = ''Available'' \<and> kc_Status cond \<noteq> ''True'' then ''Degraded'' else phase) conds"

text \<open>The composite literal all kinds share; the per-kind fields start out empty.\<close>

definition baseSnapshot :: "k8s_client \<Rightarrow> string \<Rightarrow> string \<Rightarrow> string \<Rightarrow> k8s_object \<Rightarrow> ObjectSnapshot" where
  "baseSnapshot c namespace kind name obj =
     \<lparr> os_Namespace = namespace, os_Kind = kind, os_Name = name, os_UID = ko_UID obj, os_Phase = '''',
       os_Labels = ko_Labels obj, os_Annotations = ko_Annotations obj, os_OwnerChain = [],
       os_RawStatusJSON = statusJSON c obj, os_ContainerStatuses = [], os_WorkloadConditions = [] \<rparr>"

definition fetchSnapshot ::
  "k8s_client \<Rightarrow> string \<Rightarrow> string \<Rightarrow> string \<Rightarrow> string + ObjectSnapshot" where
  "fetchSnapshot c namespace kind name =
     (let base = baseSnapshot c namespace kind name;
          conditions = (\<lambda>obj. map workloadCondition (ko_Conditions obj));
          get = (\<lambda>g what mk. map_sum (\<lambda>err. ''get '' @ what @ '': '' @ err) mk (g namespace name))
      in if kind = ''Pod'' then
           get (Pods c) ''pod'' (\<lambda>obj. (base obj) \<lparr> os_Phase := ko_Phase obj,
             os_ContainerStatuses := extractContainerStatuses (ko_ContainerStatuses obj) \<rparr>)
         else if kind = ''Deployment'' then
           get (Deployments c) ''deployment'' (\<lambda>obj. (base obj)
             \<lparr> os_Phase := deploymentPhase ''Available'' (ko_Conditions obj),
               os_WorkloadConditions := conditions obj \<rparr>)
         else if kind = ''StatefulSet'' then
           get (StatefulSets c) ''statefulset'' (\<lambda>obj. (base obj) \<lparr> os_WorkloadConditions := conditions obj \<rparr>)
         else if kind = ''DaemonSet'' then
           get (DaemonSets c) ''daemonset'' (\<lambda>obj. (base obj) \<lparr> os_WorkloadConditions := conditions obj \<rparr>)
         else if kind = ''ReplicaSet'' then get (ReplicaSets c) ''replicaset'' base
         else if kind = ''Job'' then
           get (Jobs c) ''job'' (\<lambda>obj. (base obj) \<lparr> os_WorkloadConditions := conditions obj \<rparr>)
         else if kind = ''CronJob'' then get (CronJobs c) ''cronjob'' base
         else if kind = ''PersistentVolumeClaim'' then
           get (PersistentVolumeClaims c) ''pvc'' (\<lambda>obj. (base obj) \<lparr> os_Phase := ko_Phase obj \<rparr>)
         else Inl (''unsupported kind: '' @ kind))"

definition GetObjectSnapshot ::
  "(nat \<Rightarrow> k8s_client) \<Rightarrow> string \<Rightarrow> string \<Rightarrow> string \<Rightarrow> string + ObjectSnapshot" where
  "GetObjectSnapshot w namespace kind name =
     (case fetchSnapshot (w 0) namespace kind name of
        Inl err \<Rightarrow> Inl err
      | Inr snap \<Rightarrow>
          (case ResolveOwnerChain (\<lambda>i. w (Suc i)) namespace kind name of
             (_, Some err) \<Rightarrow> Inr (snap \<lparr>os_OwnerChain := []\<rparr>)
           | (chain, None) \<Rightarrow> Inr (snap \<lparr>os_OwnerChain := chain\<rparr>)))"

section \<open>Specification of the walk\<close>

text \<open>The owner references that the \<open>i\<close>-th fetch reports for a chain entry, if it also reports its UID.\<close>

definition refs_at :: "(nat \<Rightarrow> k8s_client) \<Rightarrow> string \<Rightarrow> nat \<Rightarrow> OwnerRef \<Rightarrow> OwnerReference list option" where
  "refs_at w namespace i r =
     (case getOwnerRefs (w i) namespace (or_Kind r) (or_Name r) of
        Inl _ \<Rightarrow> None
      | Inr (owners, uid) \<Rightarrow> if uid = or_UID r then Some owners else None)"

text \<open>
  The position of the owner to follow: that of the first controller, and the first one when no
  owner is marked as the controller.
\<close>

definition controlling :: "OwnerReference list \<Rightarrow> nat \<Rightarrow> bool" where
  "controlling owners p \<longleftrightarrow>
     p < length owners
     \<and> (if \<exists>ref \<in> set owners. oref_Controller ref = Some True
        then oref_Controller (owners ! p) = Some True \<and> (\<forall>q < p. oref_Controller (owners ! q) \<noteq> Some True)
        else p = 0)"

definition points_to :: "OwnerReference list \<Rightarrow> OwnerRef \<Rightarrow> bool" where
  "points_to owners r \<longleftrightarrow>
     (\<exists>p < length owners. controlling owners p
        \<and> or_Kind r = oref_Kind (owners ! p) \<and> or_Name r = oref_Name (owners ! p))"

text \<open>A complete path from an object to an object without owners.\<close>

fun owner_path :: "(nat \<Rightarrow> k8s_client) \<Rightarrow> string \<Rightarrow> nat \<Rightarrow> string \<Rightarrow> string \<Rightarrow> OwnerRef list \<Rightarrow> bool" where
  "owner_path w namespace i kind name [] \<longleftrightarrow> False"
| "owner_path w namespace i kind name (r # rs) \<longleftrightarrow>
     or_Kind r = kind \<and> or_Name r = name
     \<and> (case refs_at w namespace i r of
          None \<Rightarrow> False
        | Some owners \<Rightarrow>
            if owners = [] then rs = []
            else rs \<noteq> [] \<and> points_to owners (hd rs)
                 \<and> owner_path w namespace (Suc i) (or_Kind (hd rs)) (or_Name (hd rs)) rs)"

section \<open>Lemmas\<close>

lemma firstController_cases:
  "(firstController d os = d \<and> list_all (\<lambda>o'. oref_Controller o' \<noteq> Some True) os)
   \<or> (firstController d os \<in> set os \<and> oref_Controller (firstController d os) = Some True)"
  by (induction os) auto

lemma firstController_find:
  "firstController d os = (case find (\<lambda>ref. oref_Controller ref = Some True) os of None \<Rightarrow> d | Some ref \<Rightarrow> ref)"
  by (induction os) auto

lemma ex_controlling: "owners \<noteq> [] \<Longrightarrow> \<exists>p. controlling owners p \<and> owners ! p = nextOwner owners"
proof (cases "find (\<lambda>ref. oref_Controller ref = Some True) owners")
  case None
  moreover from this have "\<not> (\<exists>ref \<in> set owners. oref_Controller ref = Some True)" by (auto simp: find_None_iff)
  moreover assume "owners \<noteq> []"
  ultimately show ?thesis
    by (intro exI [of _ 0]) (simp add: controlling_def nextOwner_def firstController_find)
next
  case (Some ref)
  then obtain p where "p < length owners" "oref_Controller (owners ! p) = Some True" "ref = owners ! p"
    "\<forall>q < p. oref_Controller (owners ! q) \<noteq> Some True"
    by (auto simp: find_Some_iff)
  then show ?thesis
    using Some by (intro exI [of _ p]) (auto simp: controlling_def nextOwner_def firstController_find)
qed

lemma controlling_length: "controlling owners p \<Longrightarrow> p < length owners"
  by (simp add: controlling_def)

lemma controlling_unique: "controlling owners p \<Longrightarrow> controlling owners q \<Longrightarrow> p = q"
  by (cases p q rule: linorder_cases) (auto simp: controlling_def split: if_splits)

lemma controlling_iff:
  "(\<exists>p < length owners. controlling owners p \<and> P (owners ! p)) \<longleftrightarrow> owners \<noteq> [] \<and> P (nextOwner owners)"
proof
  assume "\<exists>p < length owners. controlling owners p \<and> P (owners ! p)"
  then obtain p where p: "controlling owners p" "P (owners ! p)" "owners \<noteq> []" by fastforce
  obtain q where "controlling owners q" "owners ! q = nextOwner owners" using ex_controlling [OF p(3)] by blast
  then show "owners \<noteq> [] \<and> P (nextOwner owners)" using p controlling_unique by metis
next
  assume *: "owners \<noteq> [] \<and> P (nextOwner owners)"
  then obtain p where "controlling owners p" "owners ! p = nextOwner owners" using ex_controlling by blast
  then show "\<exists>p < length owners. controlling owners p \<and> P (owners ! p)"
    using * by (intro exI [of _ p]) (simp add: controlling_length)
qed

lemma points_to_iff:
  "points_to owners r \<longleftrightarrow>
     owners \<noteq> [] \<and> or_Kind r = oref_Kind (nextOwner owners) \<and> or_Name r = oref_Name (nextOwner owners)"
  unfolding points_to_def
  by (rule controlling_iff [where P = "\<lambda>ref. or_Kind r = oref_Kind ref \<and> or_Name r = oref_Name ref"])

lemma owner_path_step:
  "owner_path w ns i k n (r # rs) \<longleftrightarrow>
     or_Kind r = k \<and> or_Name r = n
     \<and> (case refs_at w ns i r of
          None \<Rightarrow> False
        | Some owners \<Rightarrow>
            if owners = [] then rs = []
            else owner_path w ns (Suc i) (oref_Kind (nextOwner owners)) (oref_Name (nextOwner owners)) rs)"
  by (cases rs) (auto simp: points_to_iff split: option.split)

lemma chainLoop_acc:
  "chainLoop w ns fuel i k n acc =
     (acc @ fst (chainLoop w ns fuel i k n []), snd (chainLoop w ns fuel i k n []))"
proof (induction fuel arbitrary: i k n acc)
  case (Suc fuel)
  show ?case
  proof (cases "getOwnerRefs (w i) ns k n")
    case (Inr p)
    obtain owners uid where "p = (owners, uid)" by (cases p)
    then show ?thesis
      using Inr
        Suc [of "Suc i" "oref_Kind (nextOwner owners)" "oref_Name (nextOwner owners)"
          "acc @ [\<lparr>or_Kind = k, or_Name = n, or_UID = uid\<rparr>]"]
        Suc [of "Suc i" "oref_Kind (nextOwner owners)" "oref_Name (nextOwner owners)"
          "[\<lparr>or_Kind = k, or_Name = n, or_UID = uid\<rparr>]"]
      by (simp add: Let_def)
  qed simp
qed simp

text \<open>The loop without its accumulator.\<close>

lemma chainLoop_Suc:
  "chainLoop w ns (Suc fuel) i k n [] =
     (case getOwnerRefs (w i) ns k n of
        Inl err \<Rightarrow> ([], Some (''fetch '' @ k @ ''/'' @ n @ '': '' @ err))
      | Inr (owners, uid) \<Rightarrow>
          let r = \<lparr>or_Kind = k, or_Name = n, or_UID = uid\<rparr>;
              rest = chainLoop w ns fuel (Suc i) (oref_Kind (nextOwner owners)) (oref_Name (nextOwner owners)) []
          in if owners = [] then ([r], None) else (r # fst rest, snd rest))"
proof (cases "getOwnerRefs (w i) ns k n")
  case (Inr p)
  obtain owners uid where "p = (owners, uid)" by (cases p)
  then show ?thesis
    using Inr
      chainLoop_acc [of w ns fuel "Suc i" "oref_Kind (nextOwner owners)" "oref_Name (nextOwner owners)"
        "[\<lparr>or_Kind = k, or_Name = n, or_UID = uid\<rparr>]"]
    by (simp add: Let_def)
qed simp

lemma chainLoop_path:
  "owner_path w ns i k n chain \<Longrightarrow> length chain \<le> fuel \<Longrightarrow> chainLoop w ns fuel i k n [] = (chain, None)"
proof (induction chain arbitrary: i k n fuel)
  case (Cons r rs)
  note path = Cons.prems(1) [unfolded owner_path_step]
  obtain f where fuel: "fuel = Suc f" using Cons.prems(2) by (cases fuel) auto
  obtain owners where owners: "refs_at w ns i r = Some owners"
    using path by (auto split: option.splits)
  then have fetch: "getOwnerRefs (w i) ns k n = Inr (owners, or_UID r)"
    using path by (auto simp: refs_at_def split: sum.splits if_splits)
  have r: "\<lparr>or_Kind = k, or_Name = n, or_UID = or_UID r\<rparr> = r" using path by simp
  show ?case
  proof (cases "owners = []")
    case True
    then show ?thesis using path owners fetch fuel r by (simp add: chainLoop_Suc del: chainLoop.simps)
  next
    case False
    then have "chainLoop w ns f (Suc i) (oref_Kind (nextOwner owners)) (oref_Name (nextOwner owners)) [] = (rs, None)"
      using Cons.IH path Cons.prems(2) owners fuel by simp
    then show ?thesis using False fetch fuel r by (simp add: chainLoop_Suc del: chainLoop.simps)
  qed
qed simp

lemma chainLoop_None:
  "chainLoop w ns fuel i k n [] = (chain, None) \<Longrightarrow> length chain < fuel \<Longrightarrow> owner_path w ns i k n chain"
proof (induction fuel arbitrary: i k n chain)
  case (Suc fuel)
  then obtain owners uid where fetch: "getOwnerRefs (w i) ns k n = Inr (owners, uid)"
    by (auto simp: chainLoop_Suc split: sum.splits)
  show ?case
  proof (cases "owners = []")
    case True
    then show ?thesis
      using Suc.prems fetch by (auto simp: chainLoop_Suc owner_path_step refs_at_def simp del: chainLoop.simps owner_path.simps)
  next
    case False
    let ?rest = "chainLoop w ns fuel (Suc i) (oref_Kind (nextOwner owners)) (oref_Name (nextOwner owners)) []"
    have "chain = \<lparr>or_Kind = k, or_Name = n, or_UID = uid\<rparr> # fst ?rest" "snd ?rest = None"
      using Suc.prems(1) fetch False by (auto simp: chainLoop_Suc Let_def simp del: chainLoop.simps)
    then show ?thesis
      using Suc.IH [of "Suc i" _ _ "fst ?rest"] Suc.prems(2) fetch False
      by (simp add: owner_path_step refs_at_def prod_eq_iff del: owner_path.simps)
  qed
qed simp

text \<open>
  What is known of the entry at position \<open>j\<close>: the \<open>(i + j)\<close>-th fetch reported it, and the
  next entry is the owner it points to; after the last entry the walk has ended for one of
  three reasons: no owner, the bound, or a failed fetch of the owner.
\<close>

definition entry_ok ::
  "(nat \<Rightarrow> k8s_client) \<Rightarrow> string \<Rightarrow> nat \<Rightarrow> nat \<Rightarrow> OwnerRef list \<Rightarrow> string option \<Rightarrow> nat \<Rightarrow> bool" where
  "entry_ok w ns fuel i chain err j \<longleftrightarrow>
     (\<exists>owners. refs_at w ns (i + j) (chain ! j) = Some owners
        \<and> (if Suc j < length chain then points_to owners (chain ! Suc j)
           else case err of
             None \<Rightarrow> owners = [] \<or> length chain = fuel
           | Some _ \<Rightarrow> (\<exists>p < length owners. controlling owners p
               \<and> isl (getOwnerRefs (w (i + length chain)) ns (oref_Kind (owners ! p)) (oref_Name (owners ! p))))))"

lemma entry_ok_Suc: "entry_ok w ns (Suc fuel) i (r # rest) err (Suc j) = entry_ok w ns fuel (Suc i) rest err j"
  by (cases err) (simp_all add: entry_ok_def)

lemma entry_ok_Cons:
  assumes "\<forall>j < length rest. entry_ok w ns fuel (Suc i) rest err j"
    and "refs_at w ns i r = Some owners"
    and "rest \<noteq> [] \<Longrightarrow> points_to owners (rest ! 0)"
    and "rest = [] \<Longrightarrow> entry_ok w ns (Suc fuel) i [r] err 0"
  shows "\<forall>j < length (r # rest). entry_ok w ns (Suc fuel) i (r # rest) err j"
proof (intro allI impI)
  fix j assume "j < length (r # rest)"
  then show "entry_ok w ns (Suc fuel) i (r # rest) err j"
  proof (cases j)
    case 0
    then show ?thesis using assms(2-4) by (cases "rest = []") (auto simp: entry_ok_def)
  next
    case (Suc j')
    then show ?thesis using assms(1) \<open>j < length (r # rest)\<close> by (simp add: entry_ok_Suc)
  qed
qed

lemma chainLoop_sound:
  assumes "chainLoop w ns fuel i k n [] = (chain, err)"
  shows "length chain \<le> fuel \<and> (\<forall>j < length chain. entry_ok w ns fuel i chain err j)
    \<and> (case chain of
         [] \<Rightarrow> (err = None \<longrightarrow> fuel = 0) \<and> (err \<noteq> None \<longrightarrow> isl (getOwnerRefs (w i) ns k n))
       | r # _ \<Rightarrow> or_Kind r = k \<and> or_Name r = n)"
  using assms
proof (induction fuel arbitrary: i k n chain)
  case (Suc fuel)
  show ?case
  proof (cases "getOwnerRefs (w i) ns k n")
    case (Inl e)
    then show ?thesis using Suc.prems by auto
  next
    case (Inr p)
    obtain owners uid where p: "p = (owners, uid)" by (cases p)
    let ?r = "\<lparr>or_Kind = k, or_Name = n, or_UID = uid\<rparr>"
    have refs: "refs_at w ns i ?r = Some owners" using Inr p by (simp add: refs_at_def)
    show ?thesis
    proof (cases "owners = []")
      case True
      then show ?thesis using Suc.prems Inr p refs by (auto simp: entry_ok_def)
    next
      case False
      let ?k = "oref_Kind (nextOwner owners)" and ?n = "oref_Name (nextOwner owners)"
      obtain rest where rest: "chainLoop w ns fuel (Suc i) ?k ?n [] = (rest, err)" "chain = ?r # rest"
        using Suc.prems Inr p False by (auto simp: chainLoop_Suc Let_def prod_eq_iff simp del: chainLoop.simps)
      note IH = Suc.IH [OF rest(1)]
      have "\<forall>j < length (?r # rest). entry_ok w ns (Suc fuel) i (?r # rest) err j"
      proof (rule entry_ok_Cons [OF _ refs])
        show "rest \<noteq> [] \<Longrightarrow> points_to owners (rest ! 0)"
          using IH False by (auto simp: points_to_iff neq_Nil_conv)
        show "rest = [] \<Longrightarrow> entry_ok w ns (Suc fuel) i [?r] err 0"
          using IH False refs
          by (auto simp: entry_ok_def split: option.splits
              simp: controlling_iff [where P = "\<lambda>ref. isl (getOwnerRefs f ns' (oref_Kind ref) (oref_Name ref))" for f ns'])
      qed (use IH in blast)
      then show ?thesis using IH rest(2) by simp
    qed
  qed
qed simp

section \<open>Properties\<close>


text \<open>
  C15. The owner chain is complete: a path of at most ten objects that ends in an object
  without owners is returned in full and without an error, and every chain returned without
  an error that is shorter than the bound is such a path.
\<close>

theorem ResolveOwnerChain_complete:
  assumes "length chain \<le> maxChainDepth"
  shows "(owner_path w ns 0 k n chain \<longrightarrow> ResolveOwnerChain w ns k n = (chain, None))
    \<and> (ResolveOwnerChain w ns k n = (chain, None) \<longrightarrow>
         owner_path w ns 0 k n chain \<or> length chain = maxChainDepth)"
  using assms chainLoop_path [of w ns 0 k n chain maxChainDepth]
    chainLoop_None [of w ns maxChainDepth 0 k n chain]
  by (auto simp: ResolveOwnerChain_def)

text \<open>
  A followed owner is always one of the listed owners, and it is a controller whenever
  the list has one.
\<close>

theorem nextOwner_prefers_controller:
  assumes "owners \<noteq> []"
  shows "nextOwner owners \<in> set owners
    \<and> ((\<exists>o' \<in> set owners. oref_Controller o' = Some True) \<longrightarrow> oref_Controller (nextOwner owners) = Some True)
    \<and> ((\<forall>o' \<in> set owners. oref_Controller o' \<noteq> Some True) \<longrightarrow> nextOwner owners = hd owners)"
  using firstController_cases [of "owners ! 0" owners] assms
  by (auto simp: nextOwner_def hd_conv_nth list_all_iff)

text \<open>The getter of a kind, for the kinds that the program knows.\<close>

definition fetchKind :: "k8s_client \<Rightarrow> string \<Rightarrow> getter option" where
  "fetchKind c kind = map_of
     [(''Pod'', Pods c), (''ReplicaSet'', ReplicaSets c), (''Deployment'', Deployments c),
      (''StatefulSet'', StatefulSets c), (''DaemonSet'', DaemonSets c), (''Job'', Jobs c),
      (''CronJob'', CronJobs c), (''PersistentVolumeClaim'', PersistentVolumeClaims c)] kind"

lemma fetchSnapshot_cases:
  "fetchSnapshot c ns kind n = Inl e \<Longrightarrow>
     (case fetchKind c kind of None \<Rightarrow> e = ''unsupported kind: '' @ kind | Some g \<Rightarrow> isl (g ns n))"
  "fetchSnapshot c ns kind n = Inr s \<Longrightarrow>
     (\<exists>g obj. fetchKind c kind = Some g \<and> g ns n = Inr obj
        \<and> s = (baseSnapshot c ns kind n obj)
              \<lparr> os_Phase := os_Phase s, os_ContainerStatuses := os_ContainerStatuses s,
                os_WorkloadConditions := os_WorkloadConditions s \<rparr>)"
proof -
  have map_sum_cases: "map_sum f g r = Inl e \<Longrightarrow> isl r"
    "map_sum f g r = Inr s \<Longrightarrow> \<exists>obj. r = Inr obj \<and> s = g obj"
    for f :: "string \<Rightarrow> string" and g :: "k8s_object \<Rightarrow> ObjectSnapshot" and r
    by (cases r; auto)+
  show "fetchSnapshot c ns kind n = Inl e \<Longrightarrow>
     (case fetchKind c kind of None \<Rightarrow> e = ''unsupported kind: '' @ kind | Some g \<Rightarrow> isl (g ns n))"
    by (auto simp: fetchSnapshot_def fetchKind_def Let_def split: if_splits dest!: map_sum_cases(1))
  show "fetchSnapshot c ns kind n = Inr s \<Longrightarrow>
     (\<exists>g obj. fetchKind c kind = Some g \<and> g ns n = Inr obj
        \<and> s = (baseSnapshot c ns kind n obj)
              \<lparr> os_Phase := os_Phase s, os_ContainerStatuses := os_ContainerStatuses s,
                os_WorkloadConditions := os_WorkloadConditions s \<rparr>)"
    by (auto simp: fetchSnapshot_def fetchKind_def baseSnapshot_def Let_def split: if_splits dest!: map_sum_cases(2))
qed

lemma deploymentPhase_spec:
  "deploymentPhase p conds =
     (if \<exists>cond \<in> set conds. kc_Type cond = ''Available'' \<and> kc_Status cond \<noteq> ''True'' then ''Degraded'' else p)"
  by (induction conds arbitrary: p) auto

lemma ResolveOwnerChain_head:
  "ResolveOwnerChain w ns k n = (chain, None) \<Longrightarrow> chain \<noteq> [] \<and> or_Kind (hd chain) = k \<and> or_Name (hd chain) = n"
  using chainLoop_sound [of w ns maxChainDepth 0 k n chain None]
  by (auto simp: ResolveOwnerChain_def maxChainDepth_def split: list.splits)

text \<open>
  C20. A snapshot reports the object that the API server returned. An error is returned
  exactly for a kind the program does not know and when the fetch of the object failed; a
  failed owner walk leaves the chain empty but never fails the snapshot, and otherwise the
  chain starts with the object itself.
\<close>

theorem GetObjectSnapshot_correct:
  "case GetObjectSnapshot w ns kind n of
     Inl e \<Rightarrow> (case fetchKind (w 0) kind of
                None \<Rightarrow> e = ''unsupported kind: '' @ kind | Some g \<Rightarrow> isl (g ns n))
   | Inr s \<Rightarrow> (\<exists>g obj. fetchKind (w 0) kind = Some g \<and> g ns n = Inr obj
        \<and> os_Namespace s = ns \<and> os_Kind s = kind \<and> os_Name s = n \<and> os_UID s = ko_UID obj
        \<and> os_Labels s = ko_Labels obj \<and> os_Annotations s = ko_Annotations obj
        \<and> os_RawStatusJSON s = statusJSON (w 0) obj)
      \<and> (case ResolveOwnerChain (\<lambda>i. w (Suc i)) ns kind n of
           (_, Some _) \<Rightarrow> os_OwnerChain s = []
         | (chain, None) \<Rightarrow> os_OwnerChain s = chain \<and> chain \<noteq> []
             \<and> or_Kind (hd chain) = kind \<and> or_Name (hd chain) = n)"
proof (cases "fetchSnapshot (w 0) ns kind n")
  case (Inl e)
  then show ?thesis using fetchSnapshot_cases(1) by (simp add: GetObjectSnapshot_def)
next
  case (Inr s)
  obtain chain err where walk: "ResolveOwnerChain (\<lambda>i. w (Suc i)) ns kind n = (chain, err)" by force
  have base: "\<exists>g obj. fetchKind (w 0) kind = Some g \<and> g ns n = Inr obj
      \<and> os_Namespace s = ns \<and> os_Kind s = kind \<and> os_Name s = n \<and> os_UID s = ko_UID obj
      \<and> os_Labels s = ko_Labels obj \<and> os_Annotations s = ko_Annotations obj
      \<and> os_RawStatusJSON s = statusJSON (w 0) obj"
    using fetchSnapshot_cases(2) [OF Inr]
    by (clarsimp simp: baseSnapshot_def) (metis ObjectSnapshot.select_convs ObjectSnapshot.update_convs)
  show ?thesis
    using Inr walk base ResolveOwnerChain_head [of "\<lambda>i. w (Suc i)" ns kind n chain]
    by (cases err) (simp_all add: GetObjectSnapshot_def)
qed

text \<open>
  What a snapshot says about the state of the object: a deployment is reported degraded
  exactly when its Available condition is present and not true, its conditions are reported in
  order, a pod has one container entry per container, in order, and no termination message is
  longer than 256 bytes; a message that fits is reported unchanged.
\<close>

theorem snapshot_state:
  "(Deployments c ns n = Inr obj \<longrightarrow> (\<exists>s. fetchSnapshot c ns ''Deployment'' n = Inr s
      \<and> os_Phase s = (if \<exists>cond \<in> set (ko_Conditions obj). kc_Type cond = ''Available'' \<and> kc_Status cond \<noteq> ''True''
                      then ''Degraded'' else ''Available'')
      \<and> map wc_Type (os_WorkloadConditions s) = map kc_Type (ko_Conditions obj)
      \<and> map wc_Status (os_WorkloadConditions s) = map kc_Status (ko_Conditions obj)))
   \<and> (Pods c ns n = Inr obj \<longrightarrow> (\<exists>s. fetchSnapshot c ns ''Pod'' n = Inr s
      \<and> os_Phase s = ko_Phase obj
      \<and> map cs_Name (os_ContainerStatuses s) = map kcs_Name (ko_ContainerStatuses obj)
      \<and> map cs_RestartCount (os_ContainerStatuses s) = map kcs_RestartCount (ko_ContainerStatuses obj)
      \<and> (\<forall>cs \<in> set (os_ContainerStatuses s). length (cs_LastTerminationMessage cs) \<le> maxTerminationMessageLen)
      \<and> (\<forall>kcs \<in> set (ko_ContainerStatuses obj). \<forall>t. kcs_LastTerminated kcs = Some t \<longrightarrow>
           cs_LastTerminationMessage (extractContainerStatus kcs) = take maxTerminationMessageLen (term_Message t))))"
proof -
  have msg: "cs_LastTerminationMessage (extractContainerStatus kcs) =
      (case kcs_LastTerminated kcs of None \<Rightarrow> '''' | Some t \<Rightarrow> take maxTerminationMessageLen (term_Message t))" for kcs
    by (simp add: extractContainerStatus_def Let_def truncateMessage_def split: option.split)
  have name: "cs_Name (extractContainerStatus kcs) = kcs_Name kcs"
    "cs_RestartCount (extractContainerStatus kcs) = kcs_RestartCount kcs" for kcs
    by (simp_all add: extractContainerStatus_def Let_def split: option.split)
  show ?thesis
    by (auto simp: fetchSnapshot_def Let_def baseSnapshot_def deploymentPhase_spec workloadCondition_def
        extractContainerStatuses_def msg name comp_def split: option.splits)
qed

section \<open>An example cluster\<close>

definition exampleObject :: "string \<Rightarrow> OwnerReference list \<Rightarrow> k8s_object" where
  "exampleObject uid owners =
     \<lparr> ko_UID = uid, ko_OwnerReferences = owners, ko_Labels = fmempty, ko_Annotations = fmempty,
       ko_Phase = ''Running'',
       ko_ContainerStatuses = [\<lparr> kcs_Name = ''app'', kcs_Ready = False, kcs_RestartCount = 3,
         kcs_StateRunning = False, kcs_StateWaiting = Some ''CrashLoopBackOff'', kcs_StateTerminated = None,
         kcs_LastTerminated = Some \<lparr>term_ExitCode = 137, term_Reason = ''OOMKilled'', term_Message = ''oom''\<rparr> \<rparr>],
       ko_Conditions = [\<lparr>kc_Type = ''Available'', kc_Status = ''False'', kc_Reason = ''r'', kc_Message = ''m''\<rparr>] \<rparr>"

definition exampleClient :: k8s_client where
  "exampleClient =
     (let none = (\<lambda>ns n. Inl ''not found'') in
      \<lparr> Pods = (\<lambda>ns n. if n = ''p'' then Inr (exampleObject ''u1''
           [\<lparr>oref_Kind = ''Node'', oref_Name = ''n'', oref_Controller = None\<rparr>,
            \<lparr>oref_Kind = ''ReplicaSet'', oref_Name = ''r'', oref_Controller = Some True\<rparr>]) else Inl ''not found''),
        ReplicaSets = (\<lambda>ns n. Inr (exampleObject ''u2''
           [\<lparr>oref_Kind = ''Deployment'', oref_Name = ''d'', oref_Controller = Some True\<rparr>])),
        Deployments = (\<lambda>ns n. Inr (exampleObject ''u3'' [])), StatefulSets = none, DaemonSets = none,
        Jobs = none, CronJobs = none, PersistentVolumeClaims = none, statusJSON = (\<lambda>obj. ''{}'') \<rparr>)"

definition exampleChain :: "OwnerRef list" where
  "exampleChain = [\<lparr>or_Kind = ''Pod'', or_Name = ''p'', or_UID = ''u1''\<rparr>,
     \<lparr>or_Kind = ''ReplicaSet'', or_Name = ''r'', or_UID = ''u2''\<rparr>,
     \<lparr>or_Kind = ''Deployment'', or_Name = ''d'', or_UID = ''u3''\<rparr>]"



theorem ResolveOwnerChain_complete_witness:
  "owner_path (\<lambda>_. exampleClient) ''ns'' 0 ''Pod'' ''p'' exampleChain
   \<and> ResolveOwnerChain (\<lambda>_. exampleClient) ''ns'' ''Pod'' ''p'' = (exampleChain, None)"
proof -
  have "length exampleChain \<le> maxChainDepth" "owner_path (\<lambda>_. exampleClient) ''ns'' 0 ''Pod'' ''p'' exampleChain"
    by code_simp+
  then show ?thesis using ResolveOwnerChain_complete [of exampleChain] by blast
qed

theorem nextOwner_prefers_controller_witness:
  "oref_Kind (nextOwner (ko_OwnerReferences (projr (Pods exampleClient ''ns'' ''p'')))) = ''ReplicaSet''
   \<and> nextOwner (ko_OwnerReferences (projr (Pods exampleClient ''ns'' ''p'')))
       \<in> set (ko_OwnerReferences (projr (Pods exampleClient ''ns'' ''p'')))"
proof -
  have "ko_OwnerReferences (projr (Pods exampleClient ''ns'' ''p'')) \<noteq> []"
    "oref_Kind (nextOwner (ko_OwnerReferences (projr (Pods exampleClient ''ns'' ''p'')))) = ''ReplicaSet''"
    by code_simp+
  then show ?thesis using nextOwner_prefers_controller by blast
qed

theorem snapshot_state_witness:
  "\<exists>s. fetchSnapshot exampleClient ''ns'' ''Deployment'' ''d'' = Inr s \<and> os_Phase s = ''Degraded''"
proof -
  have "Deployments exampleClient ''ns'' ''d'' = Inr (exampleObject ''u3'' [])"
    and "\<exists>cond \<in> set (ko_Conditions (exampleObject ''u3'' [])). kc_Type cond = ''Available'' \<and> kc_Status cond \<noteq> ''True''"
    by code_simp+
  then show ?thesis using snapshot_state [of exampleClient "''ns''" "''d''" "exampleObject ''u3'' []"] by auto
qed

section \<open>Truncation and UTF-8\<close>

text \<open>
  The truncation counts bytes, not characters: it may cut a well-formed message inside a
  character, and the result is then not well-formed. Such a string does not survive proto3
  serialisation, whose strings must be UTF-8.
\<close>

lemma truncateMessage_cuts_characters:
  "\<exists>msg. valid_utf8 msg \<and> \<not> valid_utf8 (truncateMessage msg)"
proof -
  let ?m = "replicate 255 (CHR ''a'') @ [CHR 0xC3, CHR 0xA9]"
  have "valid_utf8 ?m \<and> \<not> valid_utf8 (truncateMessage ?m)" by code_simp
  then show ?thesis by blast
qed

end
