(* ===== verification/Wire.thy ===== *)
theory Wire
  imports Enrichment
begin

text \<open>
  The messages of the agent's RPC interface (the structs of
  \<^verbatim>\<open>proto/gen/clusteragentpb/clusteragent.pb.go\<close>) and the conversions between them and
  the program's own records: \<^verbatim>\<open>toProto...\<close> of
  \<^verbatim>\<open>internal/app/clusteragent/server.go\<close> on the agent's side, \<^verbatim>\<open>fromProto...\<close>,
  \<^verbatim>\<open>timeOrZero\<close> and \<^verbatim>\<open>toTimestampPB\<close> of
  \<^verbatim>\<open>internal/app/coordinator/executor.go\<close> on the coordinator's side.

  The package \<^verbatim>\<open>timestamppb\<close> is not part of the repository: its type is the type
  variable \<open>'ts\<close>, its functions \<^verbatim>\<open>New\<close> and \<^verbatim>\<open>AsTime\<close> are the arguments
  \<open>tnew\<close> and \<open>astime\<close>, and the locale \<open>timestamps\<close> states that converting an instant there
  and back yields the same instant. A message pointer that the program tests against nil is
  an option; a repeated field is a list.
\<close>

section \<open>Messages\<close>

record pb_OwnerRef =
  pbor_Kind :: string
  pbor_Name :: string
  pbor_Uid :: string

record 'ts pb_NormalizedEvent =
  pbe_ClusterName :: string
  pbe_Namespace :: string
  pbe_InvolvedObjectKind :: string
  pbe_InvolvedObjectName :: string
  pbe_InvolvedObjectUid :: string
  pbe_OwnerChain :: "pb_OwnerRef list"
  pbe_Reason :: string
  pbe_Message :: string
  pbe_Count :: int32
  pbe_FirstSeen :: "'ts option"
  pbe_LastSeen :: "'ts option"

record pb_ContainerStatus =
  pbcs_Name :: string
  pbcs_Ready :: bool
  pbcs_RestartCount :: int32
  pbcs_State :: string
  pbcs_Reason :: string
  pbcs_LastTerminationExitCode :: int32
  pbcs_LastTerminationReason :: string
  pbcs_LastTerminationMessage :: string

record pb_WorkloadCondition =
  pbwc_Type :: string
  pbwc_Status :: string
  pbwc_Reason :: string
  pbwc_Message :: string

record pb_ObjectSnapshot =
  pbs_Namespace :: string
  pbs_Kind :: string
  pbs_Name :: string
  pbs_Uid :: string
  pbs_Phase :: string
  pbs_Labels :: "(string, string) fmap"
  pbs_Annotations :: "(string, string) fmap"
  pbs_OwnerChain :: "pb_OwnerRef list"
  pbs_RawStatusJson :: string
  pbs_ContainerStatuses :: "pb_ContainerStatus list"
  pbs_WorkloadConditions :: "pb_WorkloadCondition list"

record 'ts ListEventsRequest =
  ler_Namespace :: string
  ler_Reason :: string
  ler_Since :: "'ts option"
  ler_Limit :: int32

record 'ts ListEventsResponse =
  lep_Events :: "'ts pb_NormalizedEvent list"

record GetEventsForObjectRequest =
  eor_Namespace :: string
  eor_Kind :: string
  eor_Name :: string

record 'ts GetEventsForObjectResponse =
  eop_Events :: "'ts pb_NormalizedEvent list"

record 'ts GetNamespaceSummaryRequest =
  nsr_Namespace :: string
  nsr_Since :: "'ts option"

record 'ts NamespaceEventGroup =
  neg_Reason :: string
  neg_TotalCount :: int32
  neg_Objects :: "string list"
  neg_LastSeen :: "'ts option"

record 'ts GetNamespaceSummaryResponse =
  nsp_Namespace :: string
  nsp_Groups :: "'ts NamespaceEventGroup list"

record ResolveOwnerChainRequest =
  ocr_Namespace :: string
  ocr_Kind :: string
  ocr_Name :: string

record ResolveOwnerChainResponse =
  ocp_Chain :: "pb_OwnerRef list"

record GetObjectSnapshotRequest =
  sr_Namespace :: string
  sr_Kind :: string
  sr_Name :: string

record GetObjectSnapshotResponse =
  sp_Snapshot :: "pb_ObjectSnapshot option"

record pb_ContainerMetrics =
  pbcm_Name :: string
  pbcm_CpuMillicores :: go_int
  pbcm_MemoryBytes :: go_int

record 'ts pb_PodMetrics =
  pbpm_Namespace :: string
  pbpm_Pod :: string
  pbpm_Containers :: "pb_ContainerMetrics list"
  pbpm_Timestamp :: "'ts option"

record GetPodMetricsRequest =
  pmr_Namespace :: string
  pmr_Pod :: string

record 'ts GetPodMetricsResponse =
  pmp_Pods :: "'ts pb_PodMetrics list"

record GetContainerLogsRequest =
  clr_Namespace :: string
  clr_Pod :: string
  clr_Container :: string
  clr_TailLines :: int32

record GetContainerLogsResponse =
  clp_Pod :: string
  clp_Container :: string
  clp_Logs :: string

section \<open>Conversions on the agent's side\<close>

text \<open>An empty slice and a nil slice are both the empty list, so the early returns are not visible.\<close>

definition toProtoOwnerChain :: "OwnerRef list \<Rightarrow> pb_OwnerRef list" where
  "toProtoOwnerChain chain =
     map (\<lambda>r. \<lparr>pbor_Kind = or_Kind r, pbor_Name = or_Name r, pbor_Uid = or_UID r\<rparr>) chain"

definition toProtoEvent :: "(time \<Rightarrow> 'ts) \<Rightarrow> NormalizedEvent \<Rightarrow> 'ts pb_NormalizedEvent" where
  "toProtoEvent tnew e =
     \<lparr> pbe_ClusterName = ClusterName e, pbe_Namespace = Namespace e,
       pbe_InvolvedObjectKind = InvolvedObjectKind e, pbe_InvolvedObjectName = InvolvedObjectName e,
       pbe_InvolvedObjectUid = InvolvedObjectUID e, pbe_OwnerChain = toProtoOwnerChain (OwnerChain e),
       pbe_Reason = Reason e, pbe_Message = Message e, pbe_Count = Count e,
       pbe_FirstSeen = Some (tnew (FirstSeen e)), pbe_LastSeen = Some (tnew (LastSeen e)) \<rparr>"

definition toProtoContainerStatuses :: "ContainerStatus list \<Rightarrow> pb_ContainerStatus list" where
  "toProtoContainerStatuses statuses =
     map (\<lambda>s. \<lparr> pbcs_Name = cs_Name s, pbcs_Ready = cs_Ready s, pbcs_RestartCount = cs_RestartCount s,
                pbcs_State = cs_State s, pbcs_Reason = cs_Reason s,
                pbcs_LastTerminationExitCode = cs_LastTerminationExitCode s,
                pbcs_LastTerminationReason = cs_LastTerminationReason s,
                pbcs_LastTerminationMessage = cs_LastTerminationMessage s \<rparr>) statuses"

definition toProtoWorkloadConditions :: "WorkloadCondition list \<Rightarrow> pb_WorkloadCondition list" where
  "toProtoWorkloadConditions conditions =
     map (\<lambda>c. \<lparr> pbwc_Type = wc_Type c, pbwc_Status = wc_Status c,
                pbwc_Reason = wc_Reason c, pbwc_Message = wc_Message c \<rparr>) conditions"

definition toProtoSnapshot :: "ObjectSnapshot \<Rightarrow> pb_ObjectSnapshot" where
  "toProtoSnapshot snap =
     \<lparr> pbs_Namespace = os_Namespace snap, pbs_Kind = os_Kind snap, pbs_Name = os_Name snap,
       pbs_Uid = os_UID snap, pbs_Phase = os_Phase snap, pbs_Labels = os_Labels snap,
       pbs_Annotations = os_Annotations snap, pbs_OwnerChain = toProtoOwnerChain (os_OwnerChain snap),
       pbs_RawStatusJson = os_RawStatusJSON snap,
       pbs_ContainerStatuses = toProtoContainerStatuses (os_ContainerStatuses snap),
       pbs_WorkloadConditions = toProtoWorkloadConditions (os_WorkloadConditions snap) \<rparr>"

definition toProtoSnapshotPtr :: "ObjectSnapshot option \<Rightarrow> pb_ObjectSnapshot option" where
  "toProtoSnapshotPtr snap = (case snap of None \<Rightarrow> None | Some s \<Rightarrow> Some (toProtoSnapshot s))"

section \<open>Conversions on the coordinator's side\<close>

definition fromProtoOwnerChain :: "pb_OwnerRef list \<Rightarrow> OwnerRef list" where
  "fromProtoOwnerChain chain =
     map (\<lambda>r. \<lparr>or_Kind = pbor_Kind r, or_Name = pbor_Name r, or_UID = pbor_Uid r\<rparr>) chain"

definition timeOrZero :: "('ts \<Rightarrow> time) \<Rightarrow> 'ts option \<Rightarrow> time" where
  "timeOrZero astime ts = (case ts of None \<Rightarrow> zero_time | Some t \<Rightarrow> astime t)"

definition toTimestampPB :: "(time \<Rightarrow> 'ts) \<Rightarrow> time \<Rightarrow> 'ts option" where
  "toTimestampPB tnew t = (if IsZero t then None else Some (tnew t))"

definition fromProtoEvent :: "('ts \<Rightarrow> time) \<Rightarrow> 'ts pb_NormalizedEvent \<Rightarrow> NormalizedEvent" where
  "fromProtoEvent astime e =
     \<lparr> ClusterName = pbe_ClusterName e, Namespace = pbe_Namespace e,
       InvolvedObjectKind = pbe_InvolvedObjectKind e, InvolvedObjectName = pbe_InvolvedObjectName e,
       InvolvedObjectUID = pbe_InvolvedObjectUid e, OwnerChain = fromProtoOwnerChain (pbe_OwnerChain e),
       Reason = pbe_Reason e, Message = pbe_Message e, Count = pbe_Count e,
       FirstSeen = timeOrZero astime (pbe_FirstSeen e), LastSeen = timeOrZero astime (pbe_LastSeen e) \<rparr>"

definition fromProtoEvents :: "('ts \<Rightarrow> time) \<Rightarrow> 'ts pb_NormalizedEvent list \<Rightarrow> NormalizedEvent list" where
  "fromProtoEvents astime pbEvs = map (fromProtoEvent astime) pbEvs"

section \<open>Round trips\<close>

lemma OwnerChain_roundtrip [wire_simps]: "fromProtoOwnerChain (toProtoOwnerChain chain) = chain"
  by (induction chain) (simp_all add: fromProtoOwnerChain_def toProtoOwnerChain_def)

lemma length_toProto [wire_simps]:
  "length (toProtoOwnerChain chain) = length chain"
  "length (toProtoContainerStatuses css) = length css"
  "length (toProtoWorkloadConditions wcs) = length wcs"
  by (simp_all add: toProtoOwnerChain_def toProtoContainerStatuses_def toProtoWorkloadConditions_def)

locale timestamps =
  fixes tnew :: "time \<Rightarrow> 'ts" and astime :: "'ts \<Rightarrow> time"
  assumes AsTime_New: "astime (tnew t) = t"
begin

lemma timeOrZero_toTimestampPB: "timeOrZero astime (toTimestampPB tnew t) = t"
  by (simp add: timeOrZero_def toTimestampPB_def AsTime_New)

lemma event_roundtrip: "fromProtoEvent astime (toProtoEvent tnew e) = e"
  by (simp add: fromProtoEvent_def toProtoEvent_def timeOrZero_def AsTime_New wire_simps)

lemma events_roundtrip: "fromProtoEvents astime (map (toProtoEvent tnew) evs) = evs"
  by (simp add: fromProtoEvents_def comp_def event_roundtrip)

lemma toProtoEvent_inj: "toProtoEvent tnew e = toProtoEvent tnew e' \<longleftrightarrow> e = e'"
  using event_roundtrip by metis

end

text \<open>
  The documented representation of a timestamp: whole seconds since the Unix epoch, which is
  62135596800 seconds after the zero instant, and nanoseconds within the second.
\<close>

definition unixNew :: "time \<Rightarrow> int \<times> int" where
  "unixNew t = (t div 1000000000 - 62135596800, t mod 1000000000)"

definition unixAsTime :: "int \<times> int \<Rightarrow> time" where
  "unixAsTime ts = (fst ts + 62135596800) * 1000000000 + snd ts"

interpretation unix: timestamps unixNew unixAsTime
  by unfold_locales (simp add: unixNew_def unixAsTime_def)

section \<open>Properties\<close>

text \<open>
  C13. An event survives the way from an agent to the coordinator unchanged, in every field
  and with its owner chain, and so does the lower time bound of a request on the way to the
  agent, where the zero instant travels as an absent field.
\<close>

theorem event_wire_roundtrip:
  assumes "timestamps tnew astime"
  shows "fromProtoEvents astime (map (toProtoEvent tnew) evs) = evs
    \<and> timeOrZero astime (toTimestampPB tnew t) = t
    \<and> (toTimestampPB tnew t = None \<longleftrightarrow> IsZero t)"
  using timestamps.events_roundtrip [OF assms] timestamps.timeOrZero_toTimestampPB [OF assms]
  by (simp add: toTimestampPB_def)

theorem event_wire_roundtrip_witness:
  "timestamps unixNew unixAsTime
   \<and> fromProtoEvents unixAsTime (map (toProtoEvent unixNew) [exampleEvent ''prod'' ''u1'' ''BackOff'' 1 5 7]) =
       [exampleEvent ''prod'' ''u1'' ''BackOff'' 1 5 7]"
  using event_wire_roundtrip [OF unix.timestamps_axioms] unix.timestamps_axioms by blast

end
