(* ===== verification/Agent.thy ===== *)
theory Agent
  imports Event_Store Wire
begin

text \<open>
  The cluster agent, \<^verbatim>\<open>internal/app/clusteragent\<close>: the RPC handlers over the store
  and the enricher (\<^verbatim>\<open>server.go\<close>), the watcher that feeds the store through a bounded
  channel (\<^verbatim>\<open>watcher.go\<close>), its configuration (\<^verbatim>\<open>config.go\<close>) and the wiring
  (\<^verbatim>\<open>clusteragent.go\<close>).

  A handler returns \<open>Inl\<close> of an error text or \<open>Inr\<close> of a response. The handlers only read.
  The Kubernetes log API, the metrics API and the cluster configuration are arguments. The
  watcher and its goroutine are a step relation, because the informer delivers events, the
  cache sync completes and the context ends in an order the program does not control, also in the
  middle of a turn of the pipeline loop.
\<close>

section \<open>RPC handlers\<close>

definition defaultLogTailLines :: go_int where
  "defaultLogTailLines = 50"

record PodLogOptions =
  plo_Container :: string
  plo_TailLines :: go_int

record metricsapi_ContainerMetrics =
  mc_Name :: string
  mc_CpuMilliValue :: go_int
  mc_MemoryValue :: go_int

record metricsapi_PodMetrics =
  mp_Namespace :: string
  mp_Name :: string
  mp_Containers :: "metricsapi_ContainerMetrics list"
  mp_Timestamp :: time

record metrics_client =
  PodMetricses_Get :: "string \<Rightarrow> string \<Rightarrow> string + metricsapi_PodMetrics"
  PodMetricses_List :: "string \<Rightarrow> string + metricsapi_PodMetrics list"

text \<open>
  A Go interface value that holds a pointer: the nil interface, an interface that holds a nil
  pointer (which is not equal to nil), or one that holds a pointer to a value.
\<close>

datatype 'a interface = NilInterface | NilPointer | Pointer 'a

text \<open>
  The log API opens a stream, which may fail; reading it to the end may fail as well.
\<close>

record grpcServer =
  srv_store :: Store
  srv_enricher :: "nat \<Rightarrow> k8s_client"
  srv_GetLogs :: "string \<Rightarrow> string \<Rightarrow> PodLogOptions \<Rightarrow> string + (string + string)"
  srv_metrics :: "metrics_client interface"

definition ListEvents ::
  "(time \<Rightarrow> 'ts) \<Rightarrow> ('ts \<Rightarrow> time) \<Rightarrow> (uint64 set \<Rightarrow> uint64 list) \<Rightarrow> grpcServer
   \<Rightarrow> 'ts ListEventsRequest \<Rightarrow> string + 'ts ListEventsResponse" where
  "ListEvents tnew astime rng s req =
     (let f = \<lparr> f_Namespace = ler_Namespace req, f_ObjectUID = '''', f_Reason = ler_Reason req,
                f_Since = zero_time, f_Limit = scast (ler_Limit req) \<rparr>;
          f = (case ler_Since req of None \<Rightarrow> f | Some ts \<Rightarrow> f \<lparr>f_Since := astime ts\<rparr>);
          evs = Query rng (srv_store s) f
      in Inr \<lparr>lep_Events = map (toProtoEvent tnew) evs\<rparr>)"

definition GetEventsForObject ::
  "(time \<Rightarrow> 'ts) \<Rightarrow> (uint64 set \<Rightarrow> uint64 list) \<Rightarrow> grpcServer
   \<Rightarrow> GetEventsForObjectRequest \<Rightarrow> string + 'ts GetEventsForObjectResponse" where
  "GetEventsForObject tnew rng s req =
     (let candidates = Query rng (srv_store s)
            \<lparr> f_Namespace = eor_Namespace req, f_ObjectUID = '''', f_Reason = '''',
              f_Since = zero_time, f_Limit = 0 \<rparr>;
          matched = map (toProtoEvent tnew)
            (filter (\<lambda>e. InvolvedObjectKind e = eor_Kind req \<and> InvolvedObjectName e = eor_Name req) candidates)
      in Inr \<lparr>eop_Events = matched\<rparr>)"

definition GetNamespaceSummary ::
  "(time \<Rightarrow> 'ts) \<Rightarrow> ('ts \<Rightarrow> time) \<Rightarrow> (uint64 set \<Rightarrow> uint64 list) \<Rightarrow> (string set \<Rightarrow> string list)
   \<Rightarrow> grpcServer \<Rightarrow> 'ts GetNamespaceSummaryRequest \<Rightarrow> string + 'ts GetNamespaceSummaryResponse" where
  "GetNamespaceSummary tnew astime rng srng s req =
     (let since = (case nsr_Since req of None \<Rightarrow> zero_time | Some ts \<Rightarrow> astime ts);
          groups = SummarizeNamespace rng srng (srv_store s) (nsr_Namespace req) since;
          protoGroups = map (\<lambda>g. \<lparr> neg_Reason = ns_Reason g, neg_TotalCount = ns_TotalCount g,
                                   neg_Objects = ns_Objects g, neg_LastSeen = Some (tnew (ns_LastSeen g)) \<rparr>) groups
      in Inr \<lparr>nsp_Namespace = nsr_Namespace req, nsp_Groups = protoGroups\<rparr>)"

definition rpc_ResolveOwnerChain ::
  "grpcServer \<Rightarrow> ResolveOwnerChainRequest \<Rightarrow> string + ResolveOwnerChainResponse" where
  "rpc_ResolveOwnerChain s req =
     (case ResolveOwnerChain (srv_enricher s) (ocr_Namespace req) (ocr_Kind req) (ocr_Name req) of
        (_, Some err) \<Rightarrow> Inl err
      | (chain, None) \<Rightarrow> Inr \<lparr>ocp_Chain = toProtoOwnerChain chain\<rparr>)"

definition rpc_GetObjectSnapshot ::
  "grpcServer \<Rightarrow> GetObjectSnapshotRequest \<Rightarrow> string + GetObjectSnapshotResponse" where
  "rpc_GetObjectSnapshot s req =
     (case GetObjectSnapshot (srv_enricher s) (sr_Namespace req) (sr_Kind req) (sr_Name req) of
        Inl err \<Rightarrow> Inl err
      | Inr snap \<Rightarrow> Inr \<lparr>sp_Snapshot = Some
          \<lparr> pbs_Namespace = os_Namespace snap, pbs_Kind = os_Kind snap, pbs_Name = os_Name snap,
            pbs_Uid = os_UID snap, pbs_Phase = os_Phase snap, pbs_Labels = os_Labels snap,
            pbs_Annotations = os_Annotations snap, pbs_OwnerChain = toProtoOwnerChain (os_OwnerChain snap),
            pbs_RawStatusJson = os_RawStatusJSON snap,
            pbs_ContainerStatuses = toProtoContainerStatuses (os_ContainerStatuses snap),
            pbs_WorkloadConditions = toProtoWorkloadConditions (os_WorkloadConditions snap) \<rparr>\<rparr>)"

definition GetContainerLogs ::
  "grpcServer \<Rightarrow> GetContainerLogsRequest \<Rightarrow> string + GetContainerLogsResponse" where
  "GetContainerLogs s req =
     (let tailLines = (scast (clr_TailLines req) :: go_int);
          tailLines = (if sint tailLines \<le> 0 then defaultLogTailLines else tailLines);
          opts = \<lparr>plo_Container = clr_Container req, plo_TailLines = tailLines\<rparr>
      in case srv_GetLogs s (clr_Namespace req) (clr_Pod req) opts of
           Inl err \<Rightarrow> Inl err
         | Inr rc \<Rightarrow> (case rc of
               Inl err \<Rightarrow> Inl err
             | Inr buf \<Rightarrow> Inr \<lparr>clp_Pod = clr_Pod req, clp_Container = clr_Container req, clp_Logs = buf\<rparr>))"

definition toPBContainerMetrics :: "metricsapi_ContainerMetrics list \<Rightarrow> pb_ContainerMetrics list" where
  "toPBContainerMetrics containers =
     map (\<lambda>c. \<lparr>pbcm_Name = mc_Name c, pbcm_CpuMillicores = mc_CpuMilliValue c,
               pbcm_MemoryBytes = mc_MemoryValue c\<rparr>) containers"

definition podMetricsToPB ::
  "string \<Rightarrow> string \<Rightarrow> pb_ContainerMetrics list \<Rightarrow> 'ts option \<Rightarrow> 'ts pb_PodMetrics" where
  "podMetricsToPB namespace pod containers ts =
     \<lparr>pbpm_Namespace = namespace, pbpm_Pod = pod, pbpm_Containers = containers, pbpm_Timestamp = ts\<rparr>"

text \<open>Calling a method that reads through a nil pointer panics: the result \<open>None\<close>.\<close>

definition GetPodMetrics ::
  "(time \<Rightarrow> 'ts) \<Rightarrow> grpcServer \<Rightarrow> GetPodMetricsRequest \<Rightarrow> (string + 'ts GetPodMetricsResponse) option" where
  "GetPodMetrics tnew s req =
     (let toPB = (\<lambda>m. podMetricsToPB (mp_Namespace m) (mp_Name m)
                        (toPBContainerMetrics (mp_Containers m)) (Some (tnew (mp_Timestamp m))))
      in case srv_metrics s of
           NilInterface \<Rightarrow> Some (Inr \<lparr>pmp_Pods = []\<rparr>)
         | NilPointer \<Rightarrow> None
         | Pointer c \<Rightarrow>
             (if pmr_Pod req \<noteq> '''' then
                Some (map_sum (\<lambda>err. err) (\<lambda>m. \<lparr>pmp_Pods = [toPB m]\<rparr>)
                  (PodMetricses_Get c (pmr_Namespace req) (pmr_Pod req)))
              else
                Some (map_sum (\<lambda>err. err) (\<lambda>items. \<lparr>pmp_Pods = map toPB items\<rparr>)
                  (PodMetricses_List c (pmr_Namespace req)))))"

section \<open>Watcher\<close>

definition pipelineBuffer :: nat where
  "pipelineBuffer = 512"

text \<open>
  \<open>Starting\<close>: the event handler is registered and \<^verbatim>\<open>Start\<close> waits for the cache;
  \<open>Running\<close>: the pipeline goroutine reads the channel; \<open>Failed\<close>: \<^verbatim>\<open>Start\<close> returned
  the context's error; \<open>Stopped\<close>: the goroutine has returned.
\<close>

datatype phase = Starting | Running | Failed | Stopped

text \<open>
  Where the goroutine is in the body of its loop, with its local event: at the \<^verbatim>\<open>select\<close>, after
  the receive, and after the owner chain has been resolved, before the store is changed.
\<close>

datatype loop = Idle | Resolving NormalizedEvent | Storing NormalizedEvent

record watcher =
  w_clusterName :: string
  w_store :: Store
  w_pipeline :: "NormalizedEvent list"
  w_phase :: phase
  w_loop :: loop
  w_ctxDone :: bool

definition newWatcher :: "string \<Rightarrow> Store \<Rightarrow> watcher" where
  "newWatcher clusterName s =
     \<lparr>w_clusterName = clusterName, w_store = s, w_pipeline = [], w_phase = Starting, w_loop = Idle, w_ctxDone = False\<rparr>"

text \<open>The object of a notification is an event or a value of another type.\<close>

definition handle :: "watcher \<Rightarrow> corev1_Event option \<Rightarrow> watcher" where
  "handle w obj =
     (case obj of
        None \<Rightarrow> w
      | Some raw \<Rightarrow>
          let ne = Normalize (w_clusterName w) raw
          in if length (w_pipeline w) < pipelineBuffer then w \<lparr>w_pipeline := w_pipeline w @ [ne]\<rparr> else w)"

text \<open>The event with the owner chain that the API answers, unchanged when the walk failed.\<close>

definition enrich :: "(nat \<Rightarrow> k8s_client) \<Rightarrow> NormalizedEvent \<Rightarrow> NormalizedEvent" where
  "enrich api ne =
     (case ResolveOwnerChain api (Namespace ne) (InvolvedObjectKind ne) (InvolvedObjectName ne) of
        (_, Some err) \<Rightarrow> ne
      | (chain, None) \<Rightarrow> ne \<lparr>OwnerChain := chain\<rparr>)"

text \<open>
  The context of the process: \<^verbatim>\<open>context.Background()\<close>, whose \<^verbatim>\<open>Done\<close> channel is nil and never
  ready, or one that can be cancelled.
\<close>

datatype ctx = Background | Cancellable

text \<open>
  The informer's callbacks, the end of the wait for the cache, the three parts of a turn of the
  pipeline loop (only the receive and the update of the store touch what others can see; the walk
  along the owners works on the local event), the cancellation, and the return of the goroutine.
\<close>

datatype action =
    Deliver "corev1_Event option"
  | CacheSynced
  | SyncAborted
  | Receive
  | Resolve "nat \<Rightarrow> k8s_client"
  | AddToStore
  | CtxDone
  | Return

inductive wstep :: "ctx \<Rightarrow> watcher \<Rightarrow> action \<Rightarrow> watcher \<Rightarrow> bool" for ctx where
  deliver: "wstep ctx w (Deliver obj) (handle w obj)"
| synced: "w_phase w = Starting \<Longrightarrow> wstep ctx w CacheSynced (w \<lparr>w_phase := Running\<rparr>)"
| aborted: "w_phase w = Starting \<Longrightarrow> w_ctxDone w \<Longrightarrow> wstep ctx w SyncAborted (w \<lparr>w_phase := Failed\<rparr>)"
| receive: "w_phase w = Running \<Longrightarrow> w_loop w = Idle \<Longrightarrow> w_pipeline w = ne # rest \<Longrightarrow>
    wstep ctx w Receive (w \<lparr>w_pipeline := rest, w_loop := Resolving ne\<rparr>)"
| resolve: "w_loop w = Resolving ne \<Longrightarrow> wstep ctx w (Resolve api) (w \<lparr>w_loop := Storing (enrich api ne)\<rparr>)"
| add: "w_loop w = Storing ne \<Longrightarrow> wstep ctx w AddToStore (w \<lparr>w_store := Add (w_store w) ne, w_loop := Idle\<rparr>)"
| ctx_done: "ctx = Cancellable \<Longrightarrow> wstep ctx w CtxDone (w \<lparr>w_ctxDone := True\<rparr>)"
| return: "w_phase w = Running \<Longrightarrow> w_loop w = Idle \<Longrightarrow> w_ctxDone w \<Longrightarrow>
    wstep ctx w Return (w \<lparr>w_phase := Stopped\<rparr>)"

inductive_cases wstep_DeliverE: "wstep ctx w (Deliver obj) w'"
inductive_simps wstep_simps: "wstep ctx w a w'"

inductive wrun :: "ctx \<Rightarrow> watcher \<Rightarrow> action list \<Rightarrow> watcher \<Rightarrow> bool" for ctx where
  start: "wrun ctx w [] w"
| step: "wrun ctx w as w' \<Longrightarrow> wstep ctx w' a w'' \<Longrightarrow> wrun ctx w (as @ [a]) w''"

text \<open>The step relation is a function of the action, so runs can be executed.\<close>

definition wnext :: "ctx \<Rightarrow> watcher \<Rightarrow> action \<Rightarrow> watcher option" where
  "wnext ctx w a =
     (case a of
        Deliver obj \<Rightarrow> Some (handle w obj)
      | CacheSynced \<Rightarrow> if w_phase w = Starting then Some (w \<lparr>w_phase := Running\<rparr>) else None
      | SyncAborted \<Rightarrow> if w_phase w = Starting \<and> w_ctxDone w then Some (w \<lparr>w_phase := Failed\<rparr>) else None
      | Receive \<Rightarrow>
          (case w_pipeline w of
             [] \<Rightarrow> None
           | ne # rest \<Rightarrow>
               if w_phase w = Running \<and> w_loop w = Idle
               then Some (w \<lparr>w_pipeline := rest, w_loop := Resolving ne\<rparr>) else None)
      | Resolve api \<Rightarrow>
          (case w_loop w of Resolving ne \<Rightarrow> Some (w \<lparr>w_loop := Storing (enrich api ne)\<rparr>) | _ \<Rightarrow> None)
      | AddToStore \<Rightarrow>
          (case w_loop w of Storing ne \<Rightarrow> Some (w \<lparr>w_store := Add (w_store w) ne, w_loop := Idle\<rparr>) | _ \<Rightarrow> None)
      | CtxDone \<Rightarrow> if ctx = Cancellable then Some (w \<lparr>w_ctxDone := True\<rparr>) else None
      | Return \<Rightarrow>
          if w_phase w = Running \<and> w_loop w = Idle \<and> w_ctxDone w then Some (w \<lparr>w_phase := Stopped\<rparr>) else None)"

fun wexec :: "ctx \<Rightarrow> watcher \<Rightarrow> action list \<Rightarrow> watcher option" where
  "wexec ctx w [] = Some w"
| "wexec ctx w (a # as) = (case wnext ctx w a of None \<Rightarrow> None | Some w' \<Rightarrow> wexec ctx w' as)"

lemma wstep_wnext: "wstep ctx w a w' \<longleftrightarrow> wnext ctx w a = Some w'"
  by (auto simp: wstep_simps wnext_def split: action.splits list.splits loop.splits if_splits)

lemma wexec_append: "wexec ctx w (as @ bs) = Option.bind (wexec ctx w as) (\<lambda>w'. wexec ctx w' bs)"
  by (induction as arbitrary: w) (auto split: option.splits)

lemma wexec_snoc: "wexec ctx w (as @ [a]) = Option.bind (wexec ctx w as) (\<lambda>w'. wnext ctx w' a)"
  by (induction as arbitrary: w) (auto split: option.splits)

lemma wexec_wrun: "wexec ctx w as = Some w' \<Longrightarrow> wrun ctx w as w'"
proof (induction as arbitrary: w' rule: rev_induct)
  case (snoc a as)
  then show ?case by (auto simp: wexec_snoc wstep_wnext bind_eq_Some_conv intro: wrun.step)
qed (simp add: wrun.start)

section \<open>Configuration and wiring\<close>

record agent_Config =
  ac_ClusterName :: string
  ac_GRPCAddr :: string
  ac_WatchNamespace :: string
  ac_StoreMaxSize :: go_int
  ac_KubeconfigPath :: string

text \<open>The environment maps a name to its value, and to the empty string when it is not set.\<close>

definition envOrDefault :: "(string \<Rightarrow> string) \<Rightarrow> string \<Rightarrow> string \<Rightarrow> string" where
  "envOrDefault Getenv key def = (let v = Getenv key in if v \<noteq> '''' then v else def)"

definition envIntOrDefault :: "(string \<Rightarrow> string) \<Rightarrow> string \<Rightarrow> go_int \<Rightarrow> go_int" where
  "envIntOrDefault Getenv key def =
     (let v = Getenv key in
      if v \<noteq> '''' then
        (case Atoi v of Some n \<Rightarrow> if 0 < sint n then n else def | None \<Rightarrow> def)
      else def)"

definition agent_FromEnv :: "(string \<Rightarrow> string) \<Rightarrow> string + agent_Config" where
  "agent_FromEnv Getenv =
     (let cfg = \<lparr> ac_ClusterName = Getenv ''MCP_CLUSTER_NAME'',
                  ac_GRPCAddr = envOrDefault Getenv ''MCP_GRPC_ADDR'' '':50051'',
                  ac_WatchNamespace = Getenv ''MCP_WATCH_NAMESPACE'',
                  ac_StoreMaxSize = envIntOrDefault Getenv ''MCP_STORE_MAX_SIZE'' (of_nat DefaultMaxSize),
                  ac_KubeconfigPath = Getenv ''KUBECONFIG'' \<rparr>
      in if ac_ClusterName cfg = '''' then Inl ''MCP_CLUSTER_NAME is required'' else Inr cfg)"

text \<open>
  \<^verbatim>\<open>KubeConfig\<close>, with the functions of client-go as arguments: the in-cluster
  configuration, the one built from a file, and the recommended path.
\<close>

definition KubeConfig :: "string + 'c \<Rightarrow> (string \<Rightarrow> string + 'c) \<Rightarrow> string \<Rightarrow> agent_Config \<Rightarrow> string + 'c" where
  "KubeConfig inCluster build recommended c =
     (case inCluster of
        Inr cfg \<Rightarrow> Inr cfg
      | Inl _ \<Rightarrow>
          let path = ac_KubeconfigPath c;
              path = (if path = '''' then recommended else path)
          in build path)"

text \<open>
  The variable \<^verbatim>\<open>metricsClient\<close> of \<^verbatim>\<open>Run\<close> has a pointer type; it is converted to
  an interface type where it is passed to \<^verbatim>\<open>newGRPCServer\<close>.
\<close>

definition metricsInterface :: "string + metrics_client \<Rightarrow> metrics_client interface" where
  "metricsInterface r = (case r of Inl err \<Rightarrow> NilPointer | Inr c \<Rightarrow> Pointer c)"

definition newGRPCServer ::
  "Store \<Rightarrow> (nat \<Rightarrow> k8s_client) \<Rightarrow> (string \<Rightarrow> string \<Rightarrow> PodLogOptions \<Rightarrow> string + (string + string))
   \<Rightarrow> metrics_client interface \<Rightarrow> grpcServer" where
  "newGRPCServer s e k m = \<lparr>srv_store = s, srv_enricher = e, srv_GetLogs = k, srv_metrics = m\<rparr>"

section \<open>Lemmas on the watcher\<close>

text \<open>
  The events that a sequence of actions delivers, normalised, the API answers that its walks see,
  and how many events it receives from the channel and adds to the store.
\<close>

definition deliveries :: "string \<Rightarrow> action list \<Rightarrow> NormalizedEvent list" where
  "deliveries cn acts =
     concat (map (\<lambda>a. case a of Deliver (Some raw) \<Rightarrow> [Normalize cn raw] | _ \<Rightarrow> []) acts)"

definition answers :: "action list \<Rightarrow> (nat \<Rightarrow> k8s_client) list" where
  "answers acts = concat (map (\<lambda>a. case a of Resolve api \<Rightarrow> [api] | _ \<Rightarrow> []) acts)"

definition received :: "action list \<Rightarrow> nat" where
  "received acts = length (filter (\<lambda>a. case a of Receive \<Rightarrow> True | _ \<Rightarrow> False) acts)"

definition added :: "action list \<Rightarrow> nat" where
  "added acts = length (filter (\<lambda>a. case a of AddToStore \<Rightarrow> True | _ \<Rightarrow> False) acts)"

lemma deliveries_simps [simp]:
  "deliveries cn [] = []" "answers [] = []" "received [] = 0" "added [] = 0"
  "deliveries cn (acts @ [a]) = deliveries cn acts @ (case a of Deliver (Some raw) \<Rightarrow> [Normalize cn raw] | _ \<Rightarrow> [])"
  "answers (acts @ [a]) = answers acts @ (case a of Resolve api \<Rightarrow> [api] | _ \<Rightarrow> [])"
  "received (acts @ [a]) = received acts + (case a of Receive \<Rightarrow> 1 | _ \<Rightarrow> 0)"
  "added (acts @ [a]) = added acts + (case a of AddToStore \<Rightarrow> 1 | _ \<Rightarrow> 0)"
  by (simp_all add: deliveries_def answers_def received_def added_def split: action.split)

text \<open>The event in flight, which is neither in the channel nor in the store, before and after its walk.\<close>

definition unresolved :: "watcher \<Rightarrow> NormalizedEvent list" where
  "unresolved w = (case w_loop w of Resolving ne \<Rightarrow> [ne] | _ \<Rightarrow> [])"

definition resolved :: "watcher \<Rightarrow> NormalizedEvent list" where
  "resolved w = (case w_loop w of Storing ne \<Rightarrow> [ne] | _ \<Rightarrow> [])"

text \<open>
  \<open>fed w s cn accepted acts\<close>: after the actions \<open>acts\<close> the watcher has accepted these events. As many
  as it made walks for have their owner chain, and of these all are stored but the one in flight, if
  it has been resolved; the others are the one in flight, if not resolved, and the channel.
\<close>

definition fed :: "watcher \<Rightarrow> Store \<Rightarrow> string \<Rightarrow> NormalizedEvent list \<Rightarrow> action list \<Rightarrow> bool" where
  "fed w s cn accepted acts \<longleftrightarrow>
     w_clusterName w = cn
     \<and> length (answers acts) \<le> length accepted
     \<and> added acts \<le> length (answers acts)
     \<and> w_store w = foldl Add s (take (added acts) (map2 enrich (answers acts) accepted))
     \<and> resolved w = drop (added acts) (map2 enrich (answers acts) accepted)
     \<and> unresolved w @ w_pipeline w = drop (length (answers acts)) accepted
     \<and> length accepted = received acts + length (w_pipeline w)
     \<and> length (w_pipeline w) \<le> pipelineBuffer"

lemma fed_new: "fed (newWatcher cn s) s cn [] []"
  by (simp add: fed_def newWatcher_def pipelineBuffer_def resolved_def unresolved_def)

lemma handle_None [simp]: "handle w None = w"
  by (simp add: handle_def)

lemma fed_deliver:
  assumes "fed w s cn accepted acts"
  shows "length (w_pipeline w) < pipelineBuffer \<Longrightarrow>
      fed (handle w (Some raw)) s cn (accepted @ [Normalize cn raw]) (acts @ [Deliver (Some raw)])"
    and "\<not> length (w_pipeline w) < pipelineBuffer \<Longrightarrow> fed (handle w (Some raw)) s cn accepted (acts @ [Deliver (Some raw)])"
    and "fed (handle w None) s cn accepted (acts @ [Deliver None])"
  using assms by (auto simp: fed_def handle_def Let_def map2_append_short resolved_def unresolved_def simp flip: append_assoc)

lemma fed_receive:
  assumes "fed w s cn accepted acts" "w_loop w = Idle" "w_pipeline w = ne # rest"
  shows "fed (w \<lparr>w_pipeline := rest, w_loop := Resolving ne\<rparr>) s cn accepted (acts @ [Receive])"
  using assms by (auto simp: fed_def resolved_def unresolved_def)

lemma fed_resolve:
  assumes "fed w s cn accepted acts" "w_loop w = Resolving ne"
  shows "fed (w \<lparr>w_loop := Storing (enrich api ne)\<rparr>) s cn accepted (acts @ [Resolve api])"
proof -
  have d: "drop (length (answers acts)) accepted = ne # w_pipeline w"
    using assms by (simp add: fed_def unresolved_def)
  show ?thesis
    using assms drop_eq_ConsD [OF d] map2_snoc [OF d, of enrich api]
    by (simp add: fed_def resolved_def unresolved_def)
qed

lemma drop_last:
  assumes "drop n ys = [y]"
  shows "take (Suc n) ys = take n ys @ [y]" "drop (Suc n) ys = []" "Suc n \<le> length ys"
proof -
  show "take (Suc n) ys = take n ys @ [y]" using take_add [of n 1 ys] assms by simp
  have "length (drop n ys) = 1" using assms by simp
  then show "drop (Suc n) ys = []" "Suc n \<le> length ys" by simp_all
qed

lemma fed_add:
  assumes "fed w s cn accepted acts" "w_loop w = Storing ne"
  shows "fed (w \<lparr>w_store := Add (w_store w) ne, w_loop := Idle\<rparr>) s cn accepted (acts @ [AddToStore])"
proof -
  note f = assms(1) [unfolded fed_def resolved_def unresolved_def assms(2) loop.case append_Nil]
  let ?ys = "map2 enrich (answers acts) accepted"
  have "drop (added acts) ?ys = [ne]" and store: "w_store w = foldl Add s (take (added acts) ?ys)"
    and kept: "w_clusterName w = cn" "length (answers acts) \<le> length accepted"
      "drop (length (answers acts)) accepted = w_pipeline w"
      "length accepted = received acts + length (w_pipeline w)" "length (w_pipeline w) \<le> pipelineBuffer"
    using f by argo+
  note last = drop_last [OF this(1)]
  have "Suc (added acts) \<le> length (answers acts)" using last(3) by simp
  moreover have "Add (w_store w) ne = foldl Add s (take (Suc (added acts)) ?ys)"
    unfolding last(1) store by simp
  ultimately show ?thesis using last(2) kept by (simp add: fed_def resolved_def unresolved_def)
qed

lemma fed_other:
  assumes "fed w s cn accepted acts" "a \<in> {CacheSynced, SyncAborted, CtxDone, Return}"
  shows "fed (w \<lparr>w_phase := p\<rparr>) s cn accepted (acts @ [a])" "fed (w \<lparr>w_ctxDone := d\<rparr>) s cn accepted (acts @ [a])"
  using assms by (auto simp: fed_def resolved_def unresolved_def)

lemma fed_step:
  assumes "fed w s cn accepted acts" "wstep ctx w a w'" "\<And>obj. a \<noteq> Deliver obj"
  shows "fed w' s cn accepted (acts @ [a])"
  using assms(2)
proof cases
  case (deliver obj)
  then show ?thesis using assms(3) by blast
qed (use assms(1) fed_receive fed_resolve fed_add fed_other in auto)

lemma wrun_fed:
  "wrun ctx w0 acts w \<Longrightarrow> w0 = newWatcher cn s \<Longrightarrow>
   \<exists>accepted. subseq accepted (deliveries cn acts) \<and> fed w s cn accepted acts"
proof (induction rule: wrun.induct)
  case (start w)
  then show ?case using fed_new by (intro exI [of _ "[]"]) simp
next
  case (step w0 acts w a w')
  then obtain accepted where acc: "subseq accepted (deliveries cn acts)" "fed w s cn accepted acts" by blast
  show ?case
  proof (cases "\<exists>raw. a = Deliver (Some raw) \<and> length (w_pipeline w) < pipelineBuffer")
    case True
    then obtain raw where "a = Deliver (Some raw)" "length (w_pipeline w) < pipelineBuffer" by blast
    then show ?thesis
      using step.hyps(2) acc fed_deliver(1) [OF acc(2), of raw]
      by (intro exI [of _ "accepted @ [Normalize cn raw]"]) (auto elim: wstep_DeliverE intro: list_emb_append_mono)
  next
    case False
    have "fed w' s cn accepted (acts @ [a])"
    proof (cases "\<exists>obj. a = Deliver obj")
      case True
      then obtain obj where "a = Deliver obj" by blast
      then show ?thesis
        using step.hyps(2) False fed_deliver(2,3) [OF acc(2)] by (cases obj) (auto elim: wstep_DeliverE)
    next
      case False
      then show ?thesis using fed_step [OF acc(2) step.hyps(2)] by blast
    qed
    moreover have "subseq accepted (deliveries cn (acts @ [a]))"
      using acc(1) by (simp add: list_emb_prefix)
    ultimately show ?thesis by blast
  qed
qed

text \<open>
  No event is dropped as long as at most \<open>pipelineBuffer\<close> of the delivered events have not been
  received from the channel.
\<close>

definition within_buffer :: "string \<Rightarrow> action list \<Rightarrow> bool" where
  "within_buffer cn acts \<longleftrightarrow>
     list_all (\<lambda>pre. length (deliveries cn pre) \<le> received pre + pipelineBuffer) (prefixes acts)"

lemma within_buffer_snoc:
  "within_buffer cn (acts @ [a]) \<longleftrightarrow> within_buffer cn acts
     \<and> length (deliveries cn (acts @ [a])) \<le> received (acts @ [a]) + pipelineBuffer"
  by (simp add: within_buffer_def prefixes_snoc del: deliveries_simps)

lemma wrun_lossless:
  "wrun ctx w0 acts w \<Longrightarrow> w0 = newWatcher cn s \<Longrightarrow> within_buffer cn acts \<Longrightarrow>
   fed w s cn (deliveries cn acts) acts"
proof (induction rule: wrun.induct)
  case (start w)
  then show ?case using fed_new by simp
next
  case (step w0 acts w a w')
  then have IH: "fed w s cn (deliveries cn acts) acts"
    and bound: "length (deliveries cn (acts @ [a])) \<le> received (acts @ [a]) + pipelineBuffer"
    by (simp_all only: within_buffer_snoc)
  show ?case
  proof (cases "\<exists>obj. a = Deliver obj")
    case True
    then obtain obj where a: "a = Deliver obj" "w' = handle w obj" using step.hyps(2) by (auto elim: wstep_DeliverE)
    show ?thesis
    proof (cases obj)
      case None
      then show ?thesis using a fed_deliver(3) [OF IH] by simp
    next
      case (Some raw)
      have "length (w_pipeline w) < pipelineBuffer" using bound IH a(1) Some by (simp add: fed_def)
      then show ?thesis using a Some fed_deliver(1) [OF IH] by simp
    qed
  next
    case False
    then show ?thesis using fed_step [OF IH step.hyps(2)] by (cases a) auto
  qed
qed

lemma wrun_starting:
  "wrun ctx w0 acts w \<Longrightarrow> w0 = newWatcher cn s \<Longrightarrow> CacheSynced \<notin> set acts \<Longrightarrow>
   w_clusterName w = cn \<and> w_phase w \<noteq> Running \<and> w_store w = s \<and> w_loop w = Idle
   \<and> w_pipeline w = take pipelineBuffer (deliveries cn acts)"
proof (induction rule: wrun.induct)
  case (step w0 acts w a w')
  from step.hyps(2) step.IH step.prems show ?case
    by cases (auto simp: handle_def Let_def split: option.splits)
qed (simp add: newWatcher_def)

text \<open>Turns of the loop, one per answer of the API.\<close>

definition turns :: "(nat \<Rightarrow> k8s_client) list \<Rightarrow> action list" where
  "turns apis = concat (map (\<lambda>api. [Receive, Resolve api, AddToStore]) apis)"

lemma wexec_turns:
  "w_phase w = Running \<Longrightarrow> w_loop w = Idle \<Longrightarrow> length apis = length (w_pipeline w) \<Longrightarrow>
   wexec ctx w (turns apis) =
     Some (w \<lparr>w_pipeline := [], w_loop := Idle, w_store := foldl Add (w_store w) (map2 enrich apis (w_pipeline w))\<rparr>)"
proof (induction apis arbitrary: w)
  case (Cons api apis)
  then obtain ne rest where p: "w_pipeline w = ne # rest" by (cases "w_pipeline w") auto
  let ?w = "w \<lparr>w_pipeline := rest, w_store := Add (w_store w) (enrich api ne), w_loop := Idle\<rparr>"
  have "wexec ctx w (turns (api # apis)) = wexec ctx ?w (turns apis)"
    using Cons.prems p by (simp add: turns_def wnext_def)
  then show ?case using Cons.IH [of ?w] Cons.prems p by simp
next
  case Nil
  then show ?case by (cases w) (simp add: turns_def)
qed

text \<open>The actions that first finish the turn in progress.\<close>

fun drain :: "loop \<Rightarrow> (nat \<Rightarrow> k8s_client) list \<Rightarrow> action list" where
  "drain Idle apis = turns apis"
| "drain (Resolving ne) apis = (case apis of [] \<Rightarrow> [] | api # apis \<Rightarrow> Resolve api # AddToStore # turns apis)"
| "drain (Storing ne) apis = AddToStore # turns apis"

definition pipeline_action :: "action \<Rightarrow> bool" where
  "pipeline_action a = (case a of Receive \<Rightarrow> True | Resolve _ \<Rightarrow> True | AddToStore \<Rightarrow> True | _ \<Rightarrow> False)"

lemma turns_actions: "answers (turns apis) = apis \<and> list_all pipeline_action (turns apis)"
  by (induction apis) (simp_all add: turns_def answers_def pipeline_action_def)

lemma wexec_drain:
  assumes "w_phase w = Running" "length apis = length (unresolved w @ w_pipeline w)"
  shows "wexec ctx w (drain (w_loop w) apis) =
      Some (w \<lparr>w_pipeline := [], w_loop := Idle,
               w_store := foldl Add (w_store w) (resolved w @ map2 enrich apis (unresolved w @ w_pipeline w))\<rparr>)"
    and "answers (drain (w_loop w) apis) = apis \<and> list_all pipeline_action (drain (w_loop w) apis)"
proof -
  show "wexec ctx w (drain (w_loop w) apis) =
      Some (w \<lparr>w_pipeline := [], w_loop := Idle,
               w_store := foldl Add (w_store w) (resolved w @ map2 enrich apis (unresolved w @ w_pipeline w))\<rparr>)"
  proof (cases "w_loop w")
    case Idle
    then show ?thesis using assms by (simp add: wexec_turns resolved_def unresolved_def)
  next
    case (Resolving ne)
    moreover obtain api apis' where "apis = api # apis'" using assms(2) Resolving by (cases apis) (auto simp: unresolved_def)
    ultimately show ?thesis using assms by (simp add: wnext_def wexec_turns resolved_def unresolved_def)
  next
    case (Storing ne)
    then show ?thesis using assms by (simp add: wnext_def wexec_turns resolved_def unresolved_def)
  qed
  have cons: "answers (a # acts) = (case a of Resolve api \<Rightarrow> [api] | _ \<Rightarrow> []) @ answers acts" for a acts
    by (simp add: answers_def)
  show "answers (drain (w_loop w) apis) = apis \<and> list_all pipeline_action (drain (w_loop w) apis)"
    using assms(2) turns_actions
    by (cases "w_loop w"; cases apis) (simp_all add: unresolved_def cons pipeline_action_def)
qed

section \<open>Properties\<close>

text \<open>
  An example run: one event is delivered before the cache sync and two after it, between the parts
  of a turn; at the end one event is stored, one is in flight and one waits.
\<close>

definition exampleRaw :: "string \<Rightarrow> corev1_Event" where
  "exampleRaw name =
     \<lparr> k_Namespace = ''ns'', k_InvolvedKind = ''Pod'', k_InvolvedName = name, k_InvolvedUID = ''u1'',
       k_Reason = ''BackOff'', k_Message = ''m'', k_Count = 1, k_FirstTimestamp = 1, k_LastTimestamp = 2,
       k_EventTime = 0 \<rparr>"

definition exampleActs :: "action list" where
  "exampleActs = [Deliver (Some (exampleRaw ''p'')), CacheSynced, Deliver None,
     Receive, Deliver (Some (exampleRaw ''q'')), Resolve (\<lambda>_. exampleClient), AddToStore,
     Deliver (Some (exampleRaw ''r'')), Receive]"

definition exampleWatcher :: watcher where
  "exampleWatcher = the (wexec Background (newWatcher ''prod'' (New 3)) exampleActs)"

lemma exampleWatcher_run: "wrun Background (newWatcher ''prod'' (New 3)) exampleActs exampleWatcher"
proof -
  have "wexec Background (newWatcher ''prod'' (New 3)) exampleActs \<noteq> None" by code_simp
  then show ?thesis unfolding exampleWatcher_def by (intro wexec_wrun) auto
qed

text \<open>
  C10. The pipeline is a bounded first-in first-out channel into the store: in every run of
  the watcher the accepted events are a subsequence of the delivered ones, and each is, in order of
  acceptance, in the store, in flight in the loop, or in the channel. The channel holds at most 512.
  The store is what results from adding the first of them, each with the owner chain found for it;
  at most one more is in flight, with or without its owner chain.
\<close>

theorem pipeline_fifo:
  assumes "wrun ctx (newWatcher cn s) acts w"
  shows "\<exists>accepted. subseq accepted (deliveries cn acts)
    \<and> length accepted = received acts + length (w_pipeline w)
    \<and> length (w_pipeline w) \<le> pipelineBuffer
    \<and> (let enriched = map2 enrich (answers acts) accepted
       in w_store w = foldl Add s (take (added acts) enriched)
          \<and> drop (length enriched) accepted = unresolved w @ w_pipeline w
          \<and> drop (added acts) enriched = resolved w
          \<and> length (unresolved w @ resolved w) \<le> 1)"
proof -
  obtain accepted where acc: "subseq accepted (deliveries cn acts)" "fed w s cn accepted acts"
    using wrun_fed [OF assms refl] by blast
  moreover have "length (unresolved w @ resolved w) \<le> 1"
    by (simp add: unresolved_def resolved_def split: loop.split)
  moreover have "length (map2 enrich (answers acts) accepted) = length (answers acts)"
    using acc(2) by (simp add: fed_def)
  ultimately show ?thesis unfolding Let_def by (intro exI [of _ accepted]) (simp add: fed_def)
qed

theorem pipeline_fifo_witness:
  "\<exists>accepted. subseq accepted (deliveries ''prod'' exampleActs)
     \<and> w_store exampleWatcher = foldl Add (New 3) (take 1 (map2 enrich (answers exampleActs) accepted))
     \<and> map OwnerChain (contents (w_store exampleWatcher)) = [exampleChain]
     \<and> map InvolvedObjectName (unresolved exampleWatcher) = [''q'']"
proof -
  have "map OwnerChain (contents (w_store exampleWatcher)) = [exampleChain]"
    "map InvolvedObjectName (unresolved exampleWatcher) = [''q'']" "added exampleActs = 1" by code_simp+
  moreover obtain accepted where "subseq accepted (deliveries ''prod'' exampleActs)"
    "w_store exampleWatcher = foldl Add (New 3) (take (added exampleActs) (map2 enrich (answers exampleActs) accepted))"
    using pipeline_fifo [OF exampleWatcher_run] unfolding Let_def by (elim exE conjE)
  ultimately show ?thesis by (intro exI [of _ accepted] conjI) simp_all
qed

text \<open>
  C16. Nothing is dropped while at most 512 of the delivered events are outstanding, that is, not
  yet received by the goroutine: then every delivered event is, in delivery order, in the store, in
  flight, or in the channel.
\<close>

theorem pipeline_lossless:
  assumes "wrun ctx (newWatcher cn s) acts w" "within_buffer cn acts"
  shows "let enriched = map2 enrich (answers acts) (deliveries cn acts)
    in w_store w = foldl Add s (take (added acts) enriched)
       \<and> drop (added acts) enriched = resolved w
       \<and> drop (length enriched) (deliveries cn acts) = unresolved w @ w_pipeline w"
  using wrun_lossless [OF assms(1) refl assms(2)] by (simp add: fed_def Let_def)

theorem pipeline_lossless_witness:
  "map InvolvedObjectName (w_pipeline exampleWatcher) = [''r'']
   \<and> unresolved exampleWatcher @ w_pipeline exampleWatcher = drop 1 (deliveries ''prod'' exampleActs)"
proof -
  have "within_buffer ''prod'' exampleActs" "map InvolvedObjectName (w_pipeline exampleWatcher) = [''r'']"
    "length (map2 enrich (answers exampleActs) (deliveries ''prod'' exampleActs)) = 1"
    by code_simp+
  then show ?thesis using pipeline_lossless [OF exampleWatcher_run] unfolding Let_def by metis
qed

text \<open>
  C36. The goroutine starts only after the cache sync: before that the store does not change,
  nothing is in flight, and of all events delivered during the initial list only the first 512 are
  kept.
\<close>

theorem before_sync_keeps_512:
  assumes "wrun ctx (newWatcher cn s) acts w" "CacheSynced \<notin> set acts"
  shows "w_store w = s \<and> w_loop w = Idle \<and> w_pipeline w = take 512 (deliveries cn acts)"
  using wrun_starting [OF assms(1) refl assms(2)] by (simp add: pipelineBuffer_def)

theorem before_sync_keeps_512_witness:
  "\<exists>w. wexec Cancellable (newWatcher ''prod'' (New 3)) [Deliver (Some (exampleRaw ''p'')), CtxDone, SyncAborted] = Some w
     \<and> w_store w = New 3 \<and> w_pipeline w = take 512 [Normalize ''prod'' (exampleRaw ''p'')]"
proof -
  let ?acts = "[Deliver (Some (exampleRaw ''p'')), CtxDone, SyncAborted]"
  have "wexec Cancellable (newWatcher ''prod'' (New 3)) ?acts \<noteq> None" by code_simp
  then obtain w where w: "wexec Cancellable (newWatcher ''prod'' (New 3)) ?acts = Some w" by blast
  have "CacheSynced \<notin> set ?acts" by simp
  from before_sync_keeps_512 [OF wexec_wrun [OF w] this] w show ?thesis by (simp add: deliveries_def)
qed

text \<open>
  C35. The pipeline makes progress: from any state in which the goroutine runs, also in the middle
  of a turn, whatever is in flight or waits in the channel can be processed to the end by steps of
  the goroutine alone, whatever the API server answers, and then all of it is in the store.
\<close>

theorem pipeline_drains:
  assumes "w_phase w = Running" "length apis = length (unresolved w @ w_pipeline w)"
  shows "\<exists>acts w'. wrun ctx w acts w' \<and> list_all pipeline_action acts \<and> answers acts = apis
    \<and> w_pipeline w' = [] \<and> w_loop w' = Idle
    \<and> w_store w' = foldl Add (w_store w) (resolved w @ map2 enrich apis (unresolved w @ w_pipeline w))"
  using wexec_wrun [OF wexec_drain(1) [OF assms, of ctx]] wexec_drain(2) [OF assms] by fastforce

theorem pipeline_drains_witness:
  "\<exists>acts w'. wrun Background exampleWatcher acts w' \<and> w_pipeline w' = [] \<and> w_loop w' = Idle"
proof -
  have "w_phase exampleWatcher = Running"
    "length [\<lambda>_ :: nat. exampleClient, \<lambda>_. exampleClient] = length (unresolved exampleWatcher @ w_pipeline exampleWatcher)"
    by code_simp+
  from pipeline_drains [OF this] show ?thesis by blast
qed

section \<open>Handlers\<close>

text \<open>A query without a limit returns all matching events.\<close>

lemma Query_all:
  assumes "go_range rng" "store_inv s" "f_Limit f = 0"
  shows "mset (Query rng s f) = filter_mset (matches f) (mset (contents s))"
    and "sorted_wrt (\<lambda>a b. LastSeen b \<le> LastSeen a) (Query rng s f)"
  using Query_unlimited [OF assms] Query_spec [OF assms(1,2)] by blast+

text \<open>
  C33. The events of an object: the agent returns exactly the stored events of the namespace
  (of all namespaces when it is empty) that involve an object of that kind and name, newest
  first, and the coordinator reads them unchanged.
\<close>

theorem GetEventsForObject_correct:
  assumes "timestamps tnew astime" "go_range rng" "store_inv (srv_store s)"
  shows "\<exists>resp. GetEventsForObject tnew rng s req = Inr resp
    \<and> mset (fromProtoEvents astime (eop_Events resp)) =
        filter_mset (\<lambda>e. (eor_Namespace req = '''' \<or> Namespace e = eor_Namespace req)
            \<and> InvolvedObjectKind e = eor_Kind req \<and> InvolvedObjectName e = eor_Name req)
          (mset (contents (srv_store s)))
    \<and> sorted_wrt (\<lambda>a b. LastSeen b \<le> LastSeen a) (fromProtoEvents astime (eop_Events resp))"
proof -
  let ?f = "\<lparr> f_Namespace = eor_Namespace req, f_ObjectUID = '''', f_Reason = '''',
              f_Since = zero_time, f_Limit = 0 \<rparr>"
  let ?P = "\<lambda>e. InvolvedObjectKind e = eor_Kind req \<and> InvolvedObjectName e = eor_Name req"
  note q = Query_all [OF assms(2,3), of ?f]
  have "fromProtoEvents astime (map (toProtoEvent tnew) (filter ?P (Query rng (srv_store s) ?f))) =
      filter ?P (Query rng (srv_store s) ?f)"
    by (rule timestamps.events_roundtrip [OF assms(1)])
  moreover have "filter_mset ?P (filter_mset (matches ?f) (mset (contents (srv_store s)))) =
      filter_mset (\<lambda>e. (eor_Namespace req = '''' \<or> Namespace e = eor_Namespace req)
            \<and> InvolvedObjectKind e = eor_Kind req \<and> InvolvedObjectName e = eor_Name req)
          (mset (contents (srv_store s)))"
    by (simp add: filter_filter_mset matches_def conj_ac)
  ultimately show ?thesis
    using q by (simp add: GetEventsForObject_def Let_def sorted_wrt_filter)
qed

definition exampleServer :: grpcServer where
  "exampleServer = newGRPCServer (w_store exampleWatcher) (\<lambda>_. exampleClient)
     (\<lambda>ns pod opts. Inr (Inr ''log'')) (metricsInterface (Inl ''no metrics''))"

definition exampleObjectRequest :: GetEventsForObjectRequest where
  "exampleObjectRequest = \<lparr>eor_Namespace = ''ns'', eor_Kind = ''Pod'', eor_Name = ''p''\<rparr>"

lemma exampleServer_inv: "store_inv (srv_store exampleServer)"
proof -
  obtain evs where "w_store exampleWatcher = foldl Add (New 3) evs"
    using wrun_fed [OF exampleWatcher_run refl] unfolding fed_def by blast
  then show ?thesis using buf.run_invar by (simp add: exampleServer_def newGRPCServer_def)
qed

theorem GetEventsForObject_correct_witness:
  "timestamps unixNew unixAsTime \<and> go_range (sorted_list_of_set :: uint64 set \<Rightarrow> uint64 list)
   \<and> (\<exists>resp. GetEventsForObject unixNew sorted_list_of_set exampleServer exampleObjectRequest = Inr resp
      \<and> sorted_wrt (\<lambda>a b. LastSeen b \<le> LastSeen a) (fromProtoEvents unixAsTime (eop_Events resp)))
   \<and> length (eop_Events (projr (GetEventsForObject unixNew sorted_list_of_set exampleServer exampleObjectRequest))) = 1"
proof -
  have "length (eop_Events (projr (GetEventsForObject unixNew sorted_list_of_set exampleServer exampleObjectRequest))) = 1"
    by code_simp
  moreover have "\<exists>resp. GetEventsForObject unixNew sorted_list_of_set exampleServer exampleObjectRequest = Inr resp
      \<and> sorted_wrt (\<lambda>a b. LastSeen b \<le> LastSeen a) (fromProtoEvents unixAsTime (eop_Events resp))"
    using GetEventsForObject_correct [OF unix.timestamps_axioms go_range_sorted exampleServer_inv, of exampleObjectRequest]
    by blast
  ultimately show ?thesis using unix.timestamps_axioms go_range_sorted by blast
qed

text \<open>
  The log API is always asked for a positive number of lines: the requested number, or 50
  when the request has zero or a negative one. A failed stream and a failed read are both
  reported as errors, and otherwise the text is returned unchanged.
\<close>

theorem GetContainerLogs_correct:
  "let lines = (if 0 < sint (clr_TailLines req) then sint (clr_TailLines req) else 50);
       answer = srv_GetLogs s (clr_Namespace req) (clr_Pod req)
         \<lparr>plo_Container = clr_Container req, plo_TailLines = of_int lines\<rparr>
   in 0 < lines \<and> lines < 2 ^ 31
      \<and> GetContainerLogs s req =
          (case answer of
             Inl err \<Rightarrow> Inl err
           | Inr (Inl err) \<Rightarrow> Inl err
           | Inr (Inr text) \<Rightarrow> Inr \<lparr>clp_Pod = clr_Pod req, clp_Container = clr_Container req, clp_Logs = text\<rparr>)"
proof -
  have "sint (scast (clr_TailLines req) :: go_int) = sint (clr_TailLines req)"
    by (simp add: sint_up_scast is_up)
  moreover have "(of_int (sint (clr_TailLines req)) :: go_int) = scast (clr_TailLines req)"
    by simp
  ultimately show ?thesis
    using sint32_bounds [of "clr_TailLines req"]
    by (auto simp: GetContainerLogs_def defaultLogTailLines_def Let_def split: sum.splits)
qed

text \<open>
  Pod metrics: with a client the handler returns one entry for a named pod and one per
  listed pod, in order, otherwise, or the API's error. When the creation of the metrics client
  failed, the wiring passes an interface that is not nil, and the handler panics instead of
  returning the empty response of its nil test.
\<close>

theorem GetPodMetrics_outcome:
  "GetPodMetrics tnew s req =
     (case srv_metrics s of
        NilInterface \<Rightarrow> Some (Inr \<lparr>pmp_Pods = []\<rparr>)
      | NilPointer \<Rightarrow> None
      | Pointer c \<Rightarrow> Some (map_sum (\<lambda>err. err)
          (\<lambda>ms. \<lparr>pmp_Pods = map (\<lambda>m. podMetricsToPB (mp_Namespace m) (mp_Name m)
                    (toPBContainerMetrics (mp_Containers m)) (Some (tnew (mp_Timestamp m)))) ms\<rparr>)
          (if pmr_Pod req = '''' then PodMetricses_List c (pmr_Namespace req)
           else map_sum (\<lambda>err. err) (\<lambda>m. [m]) (PodMetricses_Get c (pmr_Namespace req) (pmr_Pod req)))))
   \<and> srv_metrics (newGRPCServer st e k (metricsInterface r)) \<noteq> NilInterface
   \<and> (GetPodMetrics tnew (newGRPCServer st e k (metricsInterface r)) req = None \<longleftrightarrow> isl r)"
proof -
  have "GetPodMetrics tnew s req =
     (case srv_metrics s of
        NilInterface \<Rightarrow> Some (Inr \<lparr>pmp_Pods = []\<rparr>)
      | NilPointer \<Rightarrow> None
      | Pointer c \<Rightarrow> Some (map_sum (\<lambda>err. err)
          (\<lambda>ms. \<lparr>pmp_Pods = map (\<lambda>m. podMetricsToPB (mp_Namespace m) (mp_Name m)
                    (toPBContainerMetrics (mp_Containers m)) (Some (tnew (mp_Timestamp m)))) ms\<rparr>)
          (if pmr_Pod req = '''' then PodMetricses_List c (pmr_Namespace req)
           else map_sum (\<lambda>err. err) (\<lambda>m. [m]) (PodMetricses_Get c (pmr_Namespace req) (pmr_Pod req)))))"
    by (auto simp: GetPodMetrics_def Let_def sum.map_comp comp_def split: interface.split)
  moreover have "GetPodMetrics tnew (newGRPCServer st e k (metricsInterface r)) req = None \<longleftrightarrow> isl r"
    by (cases r) (auto simp: GetPodMetrics_def newGRPCServer_def metricsInterface_def Let_def)
  ultimately show ?thesis by (simp add: newGRPCServer_def metricsInterface_def split: sum.split)
qed

text \<open>
  A configuration is accepted exactly when a cluster name is set, and then it has that
  name, a non-empty listen address and a positive store capacity, which is the value of the
  variable whenever that is a positive decimal number.
\<close>

theorem agent_FromEnv_correct:
  "case agent_FromEnv Getenv of
     Inl e \<Rightarrow> Getenv ''MCP_CLUSTER_NAME'' = '''' \<and> e = ''MCP_CLUSTER_NAME is required''
   | Inr cfg \<Rightarrow> Getenv ''MCP_CLUSTER_NAME'' \<noteq> '''' \<and> ac_ClusterName cfg = Getenv ''MCP_CLUSTER_NAME''
       \<and> ac_GRPCAddr cfg \<noteq> '''' \<and> 0 < sint (ac_StoreMaxSize cfg)
       \<and> maxSize (New (ac_StoreMaxSize cfg)) = nat (sint (ac_StoreMaxSize cfg))
       \<and> (Getenv ''MCP_STORE_MAX_SIZE'' = Itoa (sint n) \<and> 0 < sint n \<longrightarrow> ac_StoreMaxSize cfg = n)"
proof -
  have def_pos: "0 < sint (of_nat DefaultMaxSize :: go_int)" by (simp add: DefaultMaxSize_def)
  have pos: "0 < sint (envIntOrDefault Getenv k (of_nat DefaultMaxSize))" for k
    using def_pos by (auto simp: envIntOrDefault_def Let_def split: option.split)
  have "Getenv k = Itoa (sint n) \<Longrightarrow> 0 < sint n \<Longrightarrow> envIntOrDefault Getenv k d = n" for k d
    using natDigits_ok [of "nat (sint n)"] by (auto simp: envIntOrDefault_def Let_def Atoi_Itoa, simp add: Itoa_def)
  then show ?thesis
    using pos [of "''MCP_STORE_MAX_SIZE''"]
    by (auto simp: agent_FromEnv_def envOrDefault_def Let_def New_def)
qed

definition exampleEnv :: "string \<Rightarrow> string" where
  "exampleEnv key = (if key = ''MCP_CLUSTER_NAME'' then ''prod''
     else if key = ''MCP_STORE_MAX_SIZE'' then ''512'' else '''')"

theorem agent_FromEnv_correct_witness:
  "\<exists>cfg. agent_FromEnv exampleEnv = Inr cfg \<and> ac_StoreMaxSize cfg = 512 \<and> ac_GRPCAddr cfg \<noteq> ''''"
proof -
  have "exampleEnv ''MCP_STORE_MAX_SIZE'' = Itoa (sint (512 :: go_int)) \<and> 0 < sint (512 :: go_int)"
    by code_simp
  moreover have "\<not> isl (agent_FromEnv exampleEnv)" by (simp add: agent_FromEnv_def exampleEnv_def Let_def)
  ultimately show ?thesis
    using agent_FromEnv_correct [of exampleEnv 512] by (cases "agent_FromEnv exampleEnv") auto
qed

end
