(* ===== verification/Executor.thy ===== *)
theory Executor
  imports Planner Registry Agent
begin

text \<open>
  The execution of a plan, \<^verbatim>\<open>internal/app/coordinator/executor.go\<close>: one call to the
  cluster agent per step, in order, with the results collected in one record and the failures
  as warnings. The generated RPC client is an argument: \<open>service c i\<close> answers the \<open>i\<close>-th call
  over connection \<open>c\<close>, so answers may change and fail from call to call. The second half
  connects the executor to the agent's handlers through the interface \<open>agent_service\<close>.
\<close>

section \<open>Data\<close>

record 'ts agent_client =
  cl_ListEvents :: "'ts ListEventsRequest \<Rightarrow> string + 'ts ListEventsResponse"
  cl_GetEventsForObject :: "GetEventsForObjectRequest \<Rightarrow> string + 'ts GetEventsForObjectResponse"
  cl_GetNamespaceSummary :: "'ts GetNamespaceSummaryRequest \<Rightarrow> string + 'ts GetNamespaceSummaryResponse"
  cl_ResolveOwnerChain :: "ResolveOwnerChainRequest \<Rightarrow> string + ResolveOwnerChainResponse"
  cl_GetObjectSnapshot :: "GetObjectSnapshotRequest \<Rightarrow> string + GetObjectSnapshotResponse"
  cl_GetContainerLogs :: "GetContainerLogsRequest \<Rightarrow> string + GetContainerLogsResponse"
  cl_GetPodMetrics :: "GetPodMetricsRequest \<Rightarrow> string + 'ts GetPodMetricsResponse"

record ContainerLogEntry =
  cle_Pod :: string
  cle_Container :: string
  cle_Logs :: string

record 'ts ExecutionResult =
  er_Events :: "NormalizedEvent list"
  er_Snapshots :: "pb_ObjectSnapshot list"
  er_Chains :: "pb_OwnerRef list list"
  er_NamespaceSummaries :: "'ts NamespaceEventGroup list"
  er_ContainerLogs :: "ContainerLogEntry list"
  er_PodMetrics :: "'ts pb_PodMetrics list"
  er_StepErrors :: "string list"

definition emptyResult :: "'ts ExecutionResult" where
  "emptyResult = \<lparr>er_Events = [], er_Snapshots = [], er_Chains = [], er_NamespaceSummaries = [],
     er_ContainerLogs = [], er_PodMetrics = [], er_StepErrors = []\<rparr>"

datatype exec_error = GetClientFailed string client_error

section \<open>Operations\<close>

text \<open>\<open>int32(step.Limit)\<close> keeps the low 32 bits.\<close>

definition runStep ::
  "(time \<Rightarrow> 'ts) \<Rightarrow> ('ts \<Rightarrow> time) \<Rightarrow> 'ts agent_client \<Rightarrow> Step \<Rightarrow> 'ts ExecutionResult
   \<Rightarrow> string + 'ts ExecutionResult" where
  "runStep tnew astime client step result =
     (if sp_Method step = MethodListEvents then
        (case cl_ListEvents client
            \<lparr>ler_Namespace = sp_Namespace step, ler_Reason = sp_Reason step,
             ler_Since = toTimestampPB tnew (sp_Since step), ler_Limit = ucast (sp_Limit step)\<rparr> of
           Inl err \<Rightarrow> Inl err
         | Inr resp \<Rightarrow> Inr (result \<lparr>er_Events := er_Events result @ fromProtoEvents astime (lep_Events resp)\<rparr>))
      else if sp_Method step = MethodGetEventsForObject then
        (case cl_GetEventsForObject client
            \<lparr>eor_Namespace = sp_Namespace step, eor_Kind = sp_Kind step, eor_Name = sp_Name step\<rparr> of
           Inl err \<Rightarrow> Inl err
         | Inr resp \<Rightarrow> Inr (result \<lparr>er_Events := er_Events result @ fromProtoEvents astime (eop_Events resp)\<rparr>))
      else if sp_Method step = MethodGetNamespaceSummary then
        (case cl_GetNamespaceSummary client
            \<lparr>nsr_Namespace = sp_Namespace step, nsr_Since = toTimestampPB tnew (sp_Since step)\<rparr> of
           Inl err \<Rightarrow> Inl err
         | Inr resp \<Rightarrow> Inr (result \<lparr>er_NamespaceSummaries := er_NamespaceSummaries result @ nsp_Groups resp\<rparr>))
      else if sp_Method step = MethodResolveOwnerChain then
        (case cl_ResolveOwnerChain client
            \<lparr>ocr_Namespace = sp_Namespace step, ocr_Kind = sp_Kind step, ocr_Name = sp_Name step\<rparr> of
           Inl err \<Rightarrow> Inl err
         | Inr resp \<Rightarrow> Inr (result \<lparr>er_Chains := er_Chains result @ [ocp_Chain resp]\<rparr>))
      else if sp_Method step = MethodGetObjectSnapshot then
        (case cl_GetObjectSnapshot client
            \<lparr>sr_Namespace = sp_Namespace step, sr_Kind = sp_Kind step, sr_Name = sp_Name step\<rparr> of
           Inl err \<Rightarrow> Inl err
         | Inr resp \<Rightarrow>
             (case sp_Snapshot resp of
                Some snap \<Rightarrow> Inr (result \<lparr>er_Snapshots := er_Snapshots result @ [snap]\<rparr>)
              | None \<Rightarrow> Inr result))
      else if sp_Method step = MethodGetContainerLogs then
        (case cl_GetContainerLogs client
            \<lparr>clr_Namespace = sp_Namespace step, clr_Pod = sp_Name step,
             clr_Container = sp_Container step, clr_TailLines = sp_TailLines step\<rparr> of
           Inl err \<Rightarrow> Inl err
         | Inr resp \<Rightarrow> Inr (result \<lparr>er_ContainerLogs := er_ContainerLogs result
              @ [\<lparr>cle_Pod = clp_Pod resp, cle_Container = clp_Container resp, cle_Logs = clp_Logs resp\<rparr>]\<rparr>))
      else if sp_Method step = MethodGetPodMetrics then
        (case cl_GetPodMetrics client \<lparr>pmr_Namespace = sp_Namespace step, pmr_Pod = sp_Name step\<rparr> of
           Inl err \<Rightarrow> Inl err
         | Inr resp \<Rightarrow> Inr (result \<lparr>er_PodMetrics := er_PodMetrics result @ pmp_Pods resp\<rparr>))
      else Inl (''unknown method: '' @ sp_Method step))"

fun runSteps ::
  "(time \<Rightarrow> 'ts) \<Rightarrow> ('ts \<Rightarrow> time) \<Rightarrow> (nat \<Rightarrow> 'ts agent_client) \<Rightarrow> nat \<Rightarrow> Step list \<Rightarrow> 'ts ExecutionResult
   \<Rightarrow> 'ts ExecutionResult" where
  "runSteps tnew astime cl i [] result = result"
| "runSteps tnew astime cl i (step # steps) result =
     runSteps tnew astime cl (Suc i) steps
       (case runStep tnew astime (cl i) step result of
          Inr result' \<Rightarrow> result'
        | Inl err \<Rightarrow>
            let msg = ''step '' @ sp_Method step @ '' failed: '' @ err
            in result \<lparr>er_StepErrors := er_StepErrors result @ [msg]\<rparr>)"

definition Execute ::
  "(time \<Rightarrow> 'ts) \<Rightarrow> ('ts \<Rightarrow> time) \<Rightarrow> (string \<Rightarrow> string option) \<Rightarrow> (conn \<Rightarrow> nat \<Rightarrow> 'ts agent_client) \<Rightarrow> Plan
   \<Rightarrow> Registry \<times> World \<Rightarrow> (exec_error + 'ts ExecutionResult) \<times> Registry \<times> World" where
  "Execute tnew astime dial service plan rw =
     (case Client dial (pl_ClusterName plan) rw of
        (Inl err, rw') \<Rightarrow> (Inl (GetClientFailed (pl_ClusterName plan) err), rw')
      | (Inr client, rw') \<Rightarrow> (Inr (runSteps tnew astime (service client) 0 (pl_Steps plan) emptyResult), rw'))"

section \<open>What a step contributes\<close>

definition joinResult :: "'ts ExecutionResult \<Rightarrow> 'ts ExecutionResult \<Rightarrow> 'ts ExecutionResult" where
  "joinResult a b =
     \<lparr>er_Events = er_Events a @ er_Events b, er_Snapshots = er_Snapshots a @ er_Snapshots b,
      er_Chains = er_Chains a @ er_Chains b,
      er_NamespaceSummaries = er_NamespaceSummaries a @ er_NamespaceSummaries b,
      er_ContainerLogs = er_ContainerLogs a @ er_ContainerLogs b,
      er_PodMetrics = er_PodMetrics a @ er_PodMetrics b, er_StepErrors = er_StepErrors a @ er_StepErrors b\<rparr>"

text \<open>The result of a step alone: what it collects, or its warning.\<close>

definition contribution ::
  "(time \<Rightarrow> 'ts) \<Rightarrow> ('ts \<Rightarrow> time) \<Rightarrow> 'ts agent_client \<Rightarrow> Step \<Rightarrow> 'ts ExecutionResult" where
  "contribution tnew astime client step =
     (case runStep tnew astime client step emptyResult of
        Inr r \<Rightarrow> r
      | Inl err \<Rightarrow> emptyResult \<lparr>er_StepErrors := [''step '' @ sp_Method step @ '' failed: '' @ err]\<rparr>)"

lemma joinResult_simps [simp]:
  "er_Events (joinResult a b) = er_Events a @ er_Events b"
  "er_Snapshots (joinResult a b) = er_Snapshots a @ er_Snapshots b"
  "er_Chains (joinResult a b) = er_Chains a @ er_Chains b"
  "er_NamespaceSummaries (joinResult a b) = er_NamespaceSummaries a @ er_NamespaceSummaries b"
  "er_ContainerLogs (joinResult a b) = er_ContainerLogs a @ er_ContainerLogs b"
  "er_PodMetrics (joinResult a b) = er_PodMetrics a @ er_PodMetrics b"
  "er_StepErrors (joinResult a b) = er_StepErrors a @ er_StepErrors b"
  by (simp_all add: joinResult_def)

lemma joinResult_empty [simp]: "joinResult emptyResult a = a" "joinResult a emptyResult = a"
  by (simp_all add: joinResult_def emptyResult_def)


text \<open>A step reads nothing of what was collected before it.\<close>

lemma runStep_join:
  "runStep tnew astime client step result =
     map_sum (\<lambda>e. e) (joinResult result) (runStep tnew astime client step emptyResult)"
  by (auto simp: runStep_def joinResult_def emptyResult_def split: sum.split option.split)

lemma runSteps_contributions:
  "runSteps tnew astime cl i steps result =
     foldl joinResult result (map (\<lambda>(j, step). contribution tnew astime (cl j) step) (enumerate i steps))"
proof (induction steps arbitrary: i result)
  case (Cons step steps)
  have "(case runStep tnew astime (cl i) step result of
          Inr result' \<Rightarrow> result'
        | Inl err \<Rightarrow> result \<lparr>er_StepErrors := er_StepErrors result @ [''step '' @ sp_Method step @ '' failed: '' @ err]\<rparr>)
      = joinResult result (contribution tnew astime (cl i) step)"
    by (subst runStep_join)
      (auto simp: contribution_def joinResult_def emptyResult_def split: sum.split)
  then show ?case by (simp add: Cons.IH Let_def cong: sum.case_cong)
qed simp

lemma foldl_joinResult_field:
  assumes "\<And>a b. f (joinResult a b) = f a @ f b"
  shows "f (foldl joinResult a rs) = f a @ concat (map f rs)"
  by (induction rs arbitrary: a) (simp_all add: assms)

lemma runSteps_field:
  assumes "\<And>a b :: 'ts ExecutionResult. f (joinResult a b) = f a @ f b" "f emptyResult = []"
  shows "f (runSteps tnew astime cl 0 steps emptyResult) =
    concat (map (\<lambda>(i, step). f (contribution tnew astime (cl i) step)) (enumerate 0 steps))"
  by (simp add: runSteps_contributions foldl_joinResult_field [of f, OF assms(1)] assms(2) comp_def split_def)

lemma emptyResult_simps [simp]:
  "er_Events emptyResult = []" "er_Snapshots emptyResult = []" "er_Chains emptyResult = []"
  "er_NamespaceSummaries emptyResult = []" "er_ContainerLogs emptyResult = []"
  "er_PodMetrics emptyResult = []" "er_StepErrors emptyResult = []"
  by (simp_all add: emptyResult_def)

lemma runSteps_fields:
  fixes tnew :: "time \<Rightarrow> 'ts" and astime
  defines "cs \<equiv> \<lambda>cl steps. map (\<lambda>(i, step). contribution tnew astime (cl i) step) (enumerate 0 steps)"
  shows "er_Events (runSteps tnew astime cl 0 steps emptyResult) = concat (map er_Events (cs cl steps))"
    and "er_Snapshots (runSteps tnew astime cl 0 steps emptyResult) = concat (map er_Snapshots (cs cl steps))"
    and "er_Chains (runSteps tnew astime cl 0 steps emptyResult) = concat (map er_Chains (cs cl steps))"
    and "er_NamespaceSummaries (runSteps tnew astime cl 0 steps emptyResult) =
      concat (map er_NamespaceSummaries (cs cl steps))"
    and "er_ContainerLogs (runSteps tnew astime cl 0 steps emptyResult) = concat (map er_ContainerLogs (cs cl steps))"
    and "er_PodMetrics (runSteps tnew astime cl 0 steps emptyResult) = concat (map er_PodMetrics (cs cl steps))"
    and "er_StepErrors (runSteps tnew astime cl 0 steps emptyResult) = concat (map er_StepErrors (cs cl steps))"
  by (simp_all add: cs_def runSteps_field comp_def split_def)

lemma contribution_warning:
  "er_StepErrors (contribution tnew astime client step) =
     (case runStep tnew astime client step emptyResult of
        Inl err \<Rightarrow> [''step '' @ sp_Method step @ '' failed: '' @ err] | Inr _ \<Rightarrow> [])"
  by (auto simp: contribution_def runStep_def emptyResult_def split: sum.split option.split)

text \<open>What each step of a plan returns on its own, and the result of the plan in these terms.\<close>

definition outcomes ::
  "(time \<Rightarrow> 'ts) \<Rightarrow> ('ts \<Rightarrow> time) \<Rightarrow> (nat \<Rightarrow> 'ts agent_client) \<Rightarrow> Step list \<Rightarrow> (string + 'ts ExecutionResult) list" where
  "outcomes tnew astime cl steps =
     map (\<lambda>(i, step). runStep tnew astime (cl i) step emptyResult) (enumerate 0 steps)"

text \<open>A step that fails contributes nothing, and one that succeeds no error.\<close>

definition yields_nothing :: "('ts ExecutionResult \<Rightarrow> 'b list) \<Rightarrow> string + 'ts ExecutionResult \<Rightarrow> bool" where
  "yields_nothing f r = (case r of Inl _ \<Rightarrow> True | Inr res \<Rightarrow> f res = [])"

lemma contribution_fields:
  "er_Events (contribution tnew astime client step) = [] \<longleftrightarrow> yields_nothing er_Events (runStep tnew astime client step emptyResult)"
  "er_Snapshots (contribution tnew astime client step) = [] \<longleftrightarrow> yields_nothing er_Snapshots (runStep tnew astime client step emptyResult)"
  by (simp_all add: contribution_def yields_nothing_def split: sum.split)

lemma runSteps_outcomes:
  fixes tnew :: "time \<Rightarrow> 'ts" and astime cl steps
  defines "result \<equiv> runSteps tnew astime cl 0 steps emptyResult" and "rs \<equiv> outcomes tnew astime cl steps"
  shows "er_Events result = [] \<longleftrightarrow> list_all (yields_nothing er_Events) rs"
    and "er_Snapshots result = [] \<longleftrightarrow> list_all (yields_nothing er_Snapshots) rs"
    and "er_StepErrors result =
      concat (map2 (\<lambda>step r. case r of Inl err \<Rightarrow> [''step '' @ sp_Method step @ '' failed: '' @ err] | Inr _ \<Rightarrow> []) steps rs)"
proof -
  show "er_Events result = [] \<longleftrightarrow> list_all (yields_nothing er_Events) rs"
    "er_Snapshots result = [] \<longleftrightarrow> list_all (yields_nothing er_Snapshots) rs"
    by (auto simp: result_def rs_def runSteps_fields outcomes_def list_all_iff contribution_fields)
  define f :: "Step \<Rightarrow> string + 'ts ExecutionResult \<Rightarrow> string list" where
    "f = (\<lambda>step r. case r of Inl err \<Rightarrow> [''step '' @ sp_Method step @ '' failed: '' @ err] | Inr _ \<Rightarrow> [])"
  have "map2 f steps rs = map (\<lambda>(i, step). f step (runStep tnew astime (cl i) step emptyResult)) (enumerate 0 steps)"
    unfolding rs_def outcomes_def by (rule nth_equalityI) (simp_all add: nth_enumerate_eq)
  moreover have "er_StepErrors (contribution tnew astime client step) = f step (runStep tnew astime client step emptyResult)"
    for client and step
    unfolding contribution_warning f_def ..
  ultimately show "er_StepErrors result =
      concat (map2 (\<lambda>step r. case r of Inl err \<Rightarrow> [''step '' @ sp_Method step @ '' failed: '' @ err] | Inr _ \<Rightarrow> []) steps rs)"
    unfolding f_def [symmetric] by (simp add: result_def runSteps_fields comp_def split_def)
qed

lemma runSteps_failed:
  "er_StepErrors (runSteps tnew astime cl 0 steps emptyResult) = [] \<longleftrightarrow> \<not> list_ex isl (outcomes tnew astime cl steps)"
  by (fastforce simp: runSteps_fields outcomes_def contribution_warning list_ex_iff isl_def split_def split: sum.splits)

lemma length_outcomes [simp]: "length (outcomes tnew astime cl steps) = length steps"
  by (simp add: outcomes_def)

section \<open>The agent behind the interface\<close>

text \<open>
  What the coordinator relies on: the events a service shows for a request are events of
  \<open>visible\<close> that match it, newest first, with nothing newer left out.
\<close>

definition newest_matching :: "NormalizedEvent list \<Rightarrow> Filter \<Rightarrow> NormalizedEvent list \<Rightarrow> bool" where
  "newest_matching visible f out \<longleftrightarrow>
     (\<exists>rest. filter_mset (matches f) (mset visible) = mset out + mset rest
        \<and> sorted_wrt (\<lambda>a b. LastSeen b \<le> LastSeen a) out
        \<and> (\<forall>x \<in> set rest. \<forall>y \<in> set out. LastSeen x \<le> LastSeen y)
        \<and> length out = limited (f_Limit f) (length (filter (matches f) visible)))"

locale agent_service =
  fixes tnew :: "time \<Rightarrow> 'ts" and astime :: "'ts \<Rightarrow> time"
    and client :: "'ts agent_client" and visible :: "NormalizedEvent list"
  assumes list_events:
    "\<exists>resp. cl_ListEvents client
        \<lparr>ler_Namespace = ns, ler_Reason = r, ler_Since = toTimestampPB tnew since, ler_Limit = lim\<rparr> = Inr resp
      \<and> newest_matching visible \<lparr>f_Namespace = ns, f_ObjectUID = '''', f_Reason = r, f_Since = since, f_Limit = scast lim\<rparr>
          (fromProtoEvents astime (lep_Events resp))"
    and namespace_summary:
    "\<exists>resp. cl_GetNamespaceSummary client \<lparr>nsr_Namespace = ns, nsr_Since = toTimestampPB tnew since\<rparr> = Inr resp
      \<and> distinct (map neg_Reason (nsp_Groups resp))
      \<and> set (map neg_Reason (nsp_Groups resp)) = Reason ` set (filter (in_scope ns since) visible)"
begin

lemma list_step:
  assumes "sp_Method step = MethodListEvents"
  shows "er_StepErrors (contribution tnew astime client step) = []
    \<and> er_NamespaceSummaries (contribution tnew astime client step) = []
    \<and> newest_matching visible \<lparr>f_Namespace = sp_Namespace step, f_ObjectUID = '''', f_Reason = sp_Reason step,
        f_Since = sp_Since step, f_Limit = scast (ucast (sp_Limit step) :: int32)\<rparr>
        (er_Events (contribution tnew astime client step))"
proof -
  obtain resp where resp: "cl_ListEvents client
      \<lparr>ler_Namespace = sp_Namespace step, ler_Reason = sp_Reason step,
       ler_Since = toTimestampPB tnew (sp_Since step), ler_Limit = ucast (sp_Limit step)\<rparr> = Inr resp"
    "newest_matching visible \<lparr>f_Namespace = sp_Namespace step, f_ObjectUID = '''', f_Reason = sp_Reason step,
        f_Since = sp_Since step, f_Limit = scast (ucast (sp_Limit step) :: int32)\<rparr>
        (fromProtoEvents astime (lep_Events resp))"
    using list_events by blast
  then show ?thesis using assms by (simp add: contribution_def runStep_def emptyResult_def)
qed

lemma summary_step:
  assumes "sp_Method step = MethodGetNamespaceSummary"
  shows "er_StepErrors (contribution tnew astime client step) = []
    \<and> er_Events (contribution tnew astime client step) = []
    \<and> distinct (map neg_Reason (er_NamespaceSummaries (contribution tnew astime client step)))
    \<and> set (map neg_Reason (er_NamespaceSummaries (contribution tnew astime client step))) =
        Reason ` set (filter (in_scope (sp_Namespace step) (sp_Since step)) visible)"
proof -
  obtain resp where resp: "cl_GetNamespaceSummary client
      \<lparr>nsr_Namespace = sp_Namespace step, nsr_Since = toTimestampPB tnew (sp_Since step)\<rparr> = Inr resp"
    "distinct (map neg_Reason (nsp_Groups resp))"
    "set (map neg_Reason (nsp_Groups resp)) = Reason ` set (filter (in_scope (sp_Namespace step) (sp_Since step)) visible)"
    using namespace_summary by blast
  then show ?thesis using assms by (simp add: contribution_def runStep_def emptyResult_def method_defs)
qed

text \<open>The two steps of a namespace overview against such a service.\<close>

lemma overview_result:
  assumes "result = runSteps tnew astime (\<lambda>_. client) 0 (namespaceOverview q) emptyResult"
  shows "er_StepErrors result = []
    \<and> newest_matching visible \<lparr>f_Namespace = q_Namespace q, f_ObjectUID = '''', f_Reason = '''',
        f_Since = q_Since q, f_Limit = scast (ucast (q_Limit q) :: int32)\<rparr> (er_Events result)
    \<and> distinct (map neg_Reason (er_NamespaceSummaries result))
    \<and> set (map neg_Reason (er_NamespaceSummaries result)) =
        Reason ` set (filter (in_scope (q_Namespace q) (q_Since q)) visible)"
  using summary_step [of "namespaceOverview q ! 0"] list_step [of "namespaceOverview q ! 1"]
  unfolding assms runSteps_contributions
  by (simp add: namespaceOverview_def zeroStep_def joinResult_empty)

end

text \<open>
  The agent's handlers as a client sees them over a transport that delivers every message. A
  handler that panics takes the agent down, which the caller sees as an error.
\<close>

definition directClient ::
  "(time \<Rightarrow> 'ts) \<Rightarrow> ('ts \<Rightarrow> time) \<Rightarrow> (uint64 set \<Rightarrow> uint64 list) \<Rightarrow> (string set \<Rightarrow> string list)
   \<Rightarrow> grpcServer \<Rightarrow> 'ts agent_client" where
  "directClient tnew astime rng srng s =
     \<lparr>cl_ListEvents = ListEvents tnew astime rng s, cl_GetEventsForObject = GetEventsForObject tnew rng s,
      cl_GetNamespaceSummary = GetNamespaceSummary tnew astime rng srng s,
      cl_ResolveOwnerChain = rpc_ResolveOwnerChain s, cl_GetObjectSnapshot = rpc_GetObjectSnapshot s,
      cl_GetContainerLogs = GetContainerLogs s,
      cl_GetPodMetrics = (\<lambda>req. case GetPodMetrics tnew s req of Some r \<Rightarrow> r | None \<Rightarrow> Inl ''connection lost'')\<rparr>"

lemma ListEvents_shows:
  assumes "timestamps tnew astime" "go_range rng" "store_inv (srv_store s)"
  shows "\<exists>resp. ListEvents tnew astime rng s
        \<lparr>ler_Namespace = ns, ler_Reason = r, ler_Since = toTimestampPB tnew since, ler_Limit = lim\<rparr> = Inr resp
      \<and> newest_matching (contents (srv_store s))
          \<lparr>f_Namespace = ns, f_ObjectUID = '''', f_Reason = r, f_Since = since, f_Limit = scast lim\<rparr>
          (fromProtoEvents astime (lep_Events resp))"
proof -
  let ?f = "\<lparr>f_Namespace = ns, f_ObjectUID = '''', f_Reason = r, f_Since = since, f_Limit = scast lim\<rparr>"
  have "ListEvents tnew astime rng s
        \<lparr>ler_Namespace = ns, ler_Reason = r, ler_Since = toTimestampPB tnew since, ler_Limit = lim\<rparr> =
      Inr \<lparr>lep_Events = map (toProtoEvent tnew) (Query rng (srv_store s) ?f)\<rparr>"
    using timestamps.AsTime_New [OF assms(1)]
    by (simp add: ListEvents_def toTimestampPB_def Let_def)
  then show ?thesis
    using Query_spec [OF assms(2,3), of ?f] timestamps.events_roundtrip [OF assms(1)]
    unfolding newest_matching_def by simp
qed

lemma GetNamespaceSummary_reasons:
  assumes "timestamps tnew astime" "go_range rng" "go_range srng" "store_inv (srv_store s)"
  shows "\<exists>resp. GetNamespaceSummary tnew astime rng srng s
        \<lparr>nsr_Namespace = ns, nsr_Since = toTimestampPB tnew since\<rparr> = Inr resp
      \<and> distinct (map neg_Reason (nsp_Groups resp))
      \<and> set (map neg_Reason (nsp_Groups resp)) = Reason ` set (filter (in_scope ns since) (contents (srv_store s)))"
proof -
  note spec = SummarizeNamespace_spec(1) [OF assms(2-4) refl refl, of ns since]
  have "(case toTimestampPB tnew since of None \<Rightarrow> zero_time | Some ts \<Rightarrow> astime ts) = since"
    using timestamps.timeOrZero_toTimestampPB [OF assms(1)] by (simp add: timeOrZero_def)
  then show ?thesis
    using go_range.set_rng [OF assms(3)] go_range.distinct_rng [OF assms(3)] spec
    by (simp add: GetNamespaceSummary_def Let_def comp_def flip: set_map)
qed

lemma direct_agent_service:
  assumes "timestamps tnew astime" "go_range rng" "go_range srng" "store_inv (srv_store s)"
  shows "agent_service tnew astime (directClient tnew astime rng srng s) (contents (srv_store s))"
  using ListEvents_shows [OF assms(1,2,4)] GetNamespaceSummary_reasons [OF assms]
  by unfold_locales (simp_all add: directClient_def)

interpretation direct: agent_service unixNew unixAsTime
  "directClient unixNew unixAsTime sorted_list_of_set sorted_list_of_set
     (newGRPCServer (foldl Add (New n) es) api logs metrics)"
  "contents (foldl Add (New n) es)"
  for n es api logs metrics
  using direct_agent_service [OF unix.timestamps_axioms go_range_sorted go_range_sorted,
      of "newGRPCServer (foldl Add (New n) es) api logs metrics"] buf.run_invar
  by (simp add: newGRPCServer_def)

section \<open>Properties\<close>

text \<open>
  C11. A plan is executed completely: without a client the error is returned and nothing was
  called; with one, every step is run, whatever the others return, and each collected list is
  the concatenation of what the steps contribute alone, in plan order.
\<close>

theorem Execute_collects:
  "case Execute tnew astime dial service plan rw of
     (Inl e, rw') \<Rightarrow> (\<exists>ce. Client dial (pl_ClusterName plan) rw = (Inl ce, rw')
        \<and> e = GetClientFailed (pl_ClusterName plan) ce)
   | (Inr res, rw') \<Rightarrow> (\<exists>c. Client dial (pl_ClusterName plan) rw = (Inr c, rw')
        \<and> (let cs = map (\<lambda>(i, step). contribution tnew astime (service c i) step) (enumerate 0 (pl_Steps plan))
           in er_Events res = concat (map er_Events cs)
              \<and> er_Snapshots res = concat (map er_Snapshots cs)
              \<and> er_Chains res = concat (map er_Chains cs)
              \<and> er_NamespaceSummaries res = concat (map er_NamespaceSummaries cs)
              \<and> er_ContainerLogs res = concat (map er_ContainerLogs cs)
              \<and> er_PodMetrics res = concat (map er_PodMetrics cs)
              \<and> er_StepErrors res = concat (map er_StepErrors cs)))"
proof -
  obtain r rw' where client: "Client dial (pl_ClusterName plan) rw = (r, rw')"
    by (cases "Client dial (pl_ClusterName plan) rw")
  show ?thesis
    using client by (cases r) (simp_all add: Execute_def Let_def runSteps_fields)
qed

text \<open>
  Warnings are exact: one per failed step, in plan order, each with the method and the
  error; a step that succeeds adds none, and a failed step adds nothing to the collected data.
\<close>

theorem Execute_warnings:
  "er_StepErrors (runSteps tnew astime cl 0 steps emptyResult) =
     concat (map (\<lambda>(i, step). case runStep tnew astime (cl i) step emptyResult of
         Inl err \<Rightarrow> [''step '' @ sp_Method step @ '' failed: '' @ err] | Inr _ \<Rightarrow> []) (enumerate 0 steps))
   \<and> (case runStep tnew astime client step result of
        Inl err \<Rightarrow> contribution tnew astime client step =
          emptyResult \<lparr>er_StepErrors := [''step '' @ sp_Method step @ '' failed: '' @ err]\<rparr>
      | Inr result' \<Rightarrow> er_StepErrors result' = er_StepErrors result)"
proof -
  have "er_StepErrors (runSteps tnew astime cl 0 steps emptyResult) =
      concat (map (\<lambda>(i, step). er_StepErrors (contribution tnew astime (cl i) step)) (enumerate 0 steps))"
    by (rule runSteps_field) (simp_all add: emptyResult_def)
  moreover have "case runStep tnew astime client step result of
        Inl err \<Rightarrow> contribution tnew astime client step =
          emptyResult \<lparr>er_StepErrors := [''step '' @ sp_Method step @ '' failed: '' @ err]\<rparr>
      | Inr result' \<Rightarrow> er_StepErrors result' = er_StepErrors result"
  proof (cases "runStep tnew astime client step emptyResult")
    case (Inl err)
    then show ?thesis by (subst runStep_join) (simp add: contribution_def)
  next
    case (Inr r)
    then have "er_StepErrors r = []"
      using contribution_warning [of tnew astime client step] by (simp add: contribution_def)
    with Inr show ?thesis by (subst runStep_join) simp
  qed
  ultimately show ?thesis by (simp add: contribution_warning)
qed

text \<open>
  The limit of a step is cut to 32 bits: limits that differ by a multiple of
  \<open>2 ^ 32\<close> make the same call, so a limit of \<open>2 ^ 32\<close> asks the agent for all events.
\<close>

theorem limit_truncated:
  "runStep tnew astime client (step \<lparr>sp_Limit := lim + 2 ^ 32 * k\<rparr>) result =
     runStep tnew astime client (step \<lparr>sp_Limit := lim\<rparr>) result
   \<and> limited (scast (ucast (2 ^ 32 :: go_int) :: int32)) n = n"
  using ucast32_add_mult [of lim k] by (simp add: runStep_def limited_def)

end
