(* ===== verification/Response.thy ===== *)
theory Response
  imports Correlation Executor
begin

text \<open>
  The rendering of a response, \<^verbatim>\<open>internal/app/coordinator/response.go\<close>: the line types,
  the per-mode selection of \<^verbatim>\<open>Build\<close> and the one-paragraph summary. The set of
  affected objects is enumerated in the order \<open>rng\<close>. The verb \<^verbatim>\<open>%d\<close> is \<open>Itoa\<close>.
\<close>

section \<open>Data\<close>

type_synonym ResponseMode = string

definition ResponseModeTechnical :: ResponseMode where
  "ResponseModeTechnical = ''technical''"
definition ResponseModeConcise :: ResponseMode where
  "ResponseModeConcise = ''concise''"
definition ResponseModeIncidentSummary :: ResponseMode where
  "ResponseModeIncidentSummary = ''incident-summary''"

lemmas mode_defs = ResponseModeTechnical_def ResponseModeConcise_def ResponseModeIncidentSummary_def

record NamespaceSummaryLine =
  nsl_Reason :: string
  nsl_TotalCount :: int32
  nsl_Objects :: "string list"
  nsl_LastSeen :: time

record ContainerStatusLine =
  csl_Name :: string
  csl_Ready :: bool
  csl_RestartCount :: int32
  csl_State :: string
  csl_Reason :: string
  csl_LastTerminationExitCode :: int32
  csl_LastTerminationReason :: string
  csl_LastTerminationMessage :: string

record WorkloadConditionLine =
  wcl_Type :: string
  wcl_Status :: string
  wcl_Reason :: string
  wcl_Message :: string

record SnapshotLine =
  sl_Kind :: string
  sl_Name :: string
  sl_Namespace :: string
  sl_Phase :: string
  sl_ContainerStatuses :: "ContainerStatusLine list"
  sl_WorkloadConditions :: "WorkloadConditionLine list"

record ContainerLogLine =
  cll_Pod :: string
  cll_Container :: string
  cll_Logs :: string

record ContainerMetricsLine =
  cml_Name :: string
  cml_CPUMillicores :: go_int
  cml_MemoryBytes :: go_int

record PodMetricsLine =
  pml_Namespace :: string
  pml_Pod :: string
  pml_Containers :: "ContainerMetricsLine list"
  pml_Timestamp :: time

record EventLine =
  el_Time :: time
  el_Namespace :: string
  el_Object :: string
  el_Reason :: string
  el_Message :: string
  el_Count :: int32
  el_IsRootCause :: bool
  el_CausedBy :: string
  el_GroupID :: string

record Response =
  rs_ClusterName :: string
  rs_Mode :: ResponseMode
  rs_NamespaceSummary :: "NamespaceSummaryLine list"
  rs_Timeline :: "EventLine list"
  rs_RootCauses :: "EventLine list"
  rs_AffectedObjects :: "string list"
  rs_Snapshots :: "SnapshotLine list"
  rs_ContainerLogs :: "ContainerLogLine list"
  rs_PodMetrics :: "PodMetricsLine list"
  rs_Summary :: string
  rs_Warnings :: "string list"

section \<open>Operations\<close>

definition toEventLines :: "CorrelatedEvent list \<Rightarrow> EventLine list" where
  "toEventLines ces =
     map (\<lambda>ce. \<lparr> el_Time = LastSeen ce, el_Namespace = Namespace ce,
                 el_Object = InvolvedObjectKind ce @ ''/'' @ InvolvedObjectName ce,
                 el_Reason = Reason ce, el_Message = Message ce, el_Count = Count ce,
                 el_IsRootCause = IsRootCause ce, el_CausedBy = CausedBy ce, el_GroupID = ce_GroupID ce \<rparr>) ces"

definition affectedObjects :: "(string set \<Rightarrow> string list) \<Rightarrow> Timeline \<Rightarrow> string list" where
  "affectedObjects rng t =
     (let seen = foldl (\<lambda>seen ce. insert (InvolvedObjectKind ce @ ''/'' @ InvolvedObjectName ce) seen) {} (tl_Events t)
      in rng seen)"

definition toContainerStatusLine :: "pb_ContainerStatus \<Rightarrow> ContainerStatusLine" where
  "toContainerStatusLine cs =
     \<lparr> csl_Name = pbcs_Name cs, csl_Ready = pbcs_Ready cs, csl_RestartCount = pbcs_RestartCount cs,
       csl_State = pbcs_State cs, csl_Reason = pbcs_Reason cs,
       csl_LastTerminationExitCode = pbcs_LastTerminationExitCode cs,
       csl_LastTerminationReason = pbcs_LastTerminationReason cs,
       csl_LastTerminationMessage = pbcs_LastTerminationMessage cs \<rparr>"

definition toWorkloadConditionLine :: "pb_WorkloadCondition \<Rightarrow> WorkloadConditionLine" where
  "toWorkloadConditionLine wc =
     \<lparr> wcl_Type = pbwc_Type wc, wcl_Status = pbwc_Status wc, wcl_Reason = pbwc_Reason wc, wcl_Message = pbwc_Message wc \<rparr>"

definition toSnapshotLines :: "pb_ObjectSnapshot list \<Rightarrow> SnapshotLine list" where
  "toSnapshotLines snaps =
     map (\<lambda>s. \<lparr> sl_Kind = pbs_Kind s, sl_Name = pbs_Name s, sl_Namespace = pbs_Namespace s, sl_Phase = pbs_Phase s,
                sl_ContainerStatuses = map toContainerStatusLine (pbs_ContainerStatuses s),
                sl_WorkloadConditions = map toWorkloadConditionLine (pbs_WorkloadConditions s) \<rparr>) snaps"

definition toContainerLogLines :: "ContainerLogEntry list \<Rightarrow> ContainerLogLine list" where
  "toContainerLogLines logs =
     map (\<lambda>l. \<lparr> cll_Pod = cle_Pod l, cll_Container = cle_Container l, cll_Logs = cle_Logs l \<rparr>) logs"

definition toNamespaceSummaryLines :: "('ts \<Rightarrow> time) \<Rightarrow> 'ts NamespaceEventGroup list \<Rightarrow> NamespaceSummaryLine list" where
  "toNamespaceSummaryLines astime groups =
     map (\<lambda>g. \<lparr> nsl_Reason = neg_Reason g, nsl_TotalCount = neg_TotalCount g, nsl_Objects = neg_Objects g,
                nsl_LastSeen = (case neg_LastSeen g of None \<Rightarrow> zero_time | Some ts \<Rightarrow> astime ts) \<rparr>) groups"

definition toPodMetricsLines :: "('ts \<Rightarrow> time) \<Rightarrow> 'ts pb_PodMetrics list \<Rightarrow> PodMetricsLine list" where
  "toPodMetricsLines astime pods =
     map (\<lambda>p. \<lparr> pml_Namespace = pbpm_Namespace p, pml_Pod = pbpm_Pod p,
                pml_Containers = map (\<lambda>c. \<lparr> cml_Name = pbcm_Name c, cml_CPUMillicores = pbcm_CpuMillicores c,
                                           cml_MemoryBytes = pbcm_MemoryBytes c \<rparr>) (pbpm_Containers p),
                pml_Timestamp = (case pbpm_Timestamp p of None \<Rightarrow> zero_time | Some ts \<Rightarrow> astime ts) \<rparr>) pods"

fun uniqueReasons :: "string set \<Rightarrow> CorrelatedEvent list \<Rightarrow> string list" where
  "uniqueReasons seen [] = []"
| "uniqueReasons seen (rc # rcs) =
     (if Reason rc \<in> seen then uniqueReasons seen rcs
      else Reason rc # uniqueReasons (insert (Reason rc) seen) rcs)"

definition summarise :: "(string set \<Rightarrow> string list) \<Rightarrow> Timeline \<Rightarrow> string" where
  "summarise rng t =
     (if tl_Events t = [] then ''No events found for the given query.''
      else if tl_RootCauses t = [] then
        ''Found '' @ Itoa (int (length (tl_Events t))) @ '' events; no clear root cause identified.''
      else
        let rcReasons = uniqueReasons {} (tl_RootCauses t);
            objects = affectedObjects rng t
        in ''Detected '' @ Itoa (int (length (tl_Events t))) @ '' events across '' @ Itoa (int (length objects))
           @ '' object(s). Probable root cause(s): '' @ Join rcReasons '', '' @ ''. ''
           @ ''Downstream effects: '' @ Itoa (int (length (tl_Events t)) - int (length (tl_RootCauses t)))
           @ '' additional event(s) observed. Affected: '' @ Join objects '', '' @ ''.'')"

definition Build ::
  "('ts \<Rightarrow> time) \<Rightarrow> (string set \<Rightarrow> string list) \<Rightarrow> string \<Rightarrow> ResponseMode \<Rightarrow> Timeline \<Rightarrow> 'ts ExecutionResult
   \<Rightarrow> Response" where
  "Build astime rng clusterName mode t result =
     (let resp = \<lparr> rs_ClusterName = clusterName, rs_Mode = mode,
                   rs_NamespaceSummary = toNamespaceSummaryLines astime (er_NamespaceSummaries result),
                   rs_Timeline = [], rs_RootCauses = [], rs_AffectedObjects = [],
                   rs_Snapshots = toSnapshotLines (er_Snapshots result),
                   rs_ContainerLogs = toContainerLogLines (er_ContainerLogs result),
                   rs_PodMetrics = toPodMetricsLines astime (er_PodMetrics result),
                   rs_Summary = '''', rs_Warnings = er_StepErrors result \<rparr>
      in if mode = ResponseModeConcise then
           resp \<lparr> rs_RootCauses := toEventLines (tl_RootCauses t), rs_Summary := summarise rng t \<rparr>
         else if mode = ResponseModeIncidentSummary then
           resp \<lparr> rs_Timeline := toEventLines (tl_Events t), rs_RootCauses := toEventLines (tl_RootCauses t),
                  rs_AffectedObjects := affectedObjects rng t, rs_Summary := summarise rng t \<rparr>
         else
           resp \<lparr> rs_Timeline := toEventLines (tl_Events t), rs_RootCauses := toEventLines (tl_RootCauses t),
                  rs_AffectedObjects := affectedObjects rng t \<rparr>)"

section \<open>Lemmas\<close>

lemma affectedObjects_spec:
  assumes "go_range rng"
  shows "distinct (affectedObjects rng t)"
    and "set (affectedObjects rng t) = (\<lambda>ce. InvolvedObjectKind ce @ ''/'' @ InvolvedObjectName ce) ` set (tl_Events t)"
proof -
  have "foldl (\<lambda>seen ce. insert (f ce) seen) S xs = S \<union> f ` set xs" for f :: "CorrelatedEvent \<Rightarrow> string" and S xs
    by (induction xs arbitrary: S) auto
  then have eq: "affectedObjects rng t =
      rng ((\<lambda>ce. InvolvedObjectKind ce @ ''/'' @ InvolvedObjectName ce) ` set (tl_Events t))"
    by (simp add: affectedObjects_def)
  show "distinct (affectedObjects rng t)"
    unfolding eq using go_range.distinct_rng [OF assms] by simp
  show "set (affectedObjects rng t) = (\<lambda>ce. InvolvedObjectKind ce @ ''/'' @ InvolvedObjectName ce) ` set (tl_Events t)"
    unfolding eq using go_range.set_rng [OF assms] by simp
qed

lemma uniqueReasons_spec:
  "distinct (uniqueReasons seen rcs) \<and> set (uniqueReasons seen rcs) = Reason ` set rcs - seen"
  by (induction seen rcs rule: uniqueReasons.induct) auto

lemma uniqueReasons_subseq: "subseq (uniqueReasons seen rcs) (map Reason rcs)"
  by (induction seen rcs rule: uniqueReasons.induct) auto

text \<open>A timeline with events has a root cause: the chronologically first event of a workload is one.\<close>

lemma Correlate_has_root:
  assumes "runtime_ok erng grng sortE sortC" "t = Correlate erng grng sortE sortC evs"
  shows "tl_RootCauses t = [] \<longleftrightarrow> tl_Events t = []"
proof -
  note ok = runtime_okD [OF assms(1)]
  have rcs: "tl_RootCauses t = filter IsRootCause (tl_Events t)"
    using assms(2) by (simp add: Correlate_def Let_def)
  have evs: "set (tl_Events t) = ann_at (causedByIndex erng) (sortE evs) ` {..< length evs}"
    using Correlate_set [OF ok(2-4)] assms(2) by simp
  have "\<exists>ce \<in> set (tl_Events t). IsRootCause ce" if "tl_Events t \<noteq> []"
  proof -
    have "0 < length evs" using that evs by (cases evs) auto
    then have "CausedBy (ann_at (causedByIndex erng) (sortE evs) 0) = ''''"
      using CausedBy_ann_at(1) [OF ok(1), of 0 "sortE evs"] slice_sort.length_srt [OF ok(3)] by simp
    then show ?thesis using evs \<open>0 < length evs\<close> by force
  qed
  then show ?thesis using rcs by (auto simp: filter_empty_conv)
qed

section \<open>Properties\<close>

text \<open>
  What each mode shows: all modes carry the warnings and everything collected besides
  events; concise shows the root causes and the summary, incident-summary the whole timeline,
  the root causes, the affected objects and the summary, and every other mode the same without
  the summary.
\<close>

theorem Build_modes:
  "let resp = Build astime rng cn mode t result in
   rs_ClusterName resp = cn \<and> rs_Mode resp = mode \<and> rs_Warnings resp = er_StepErrors result
   \<and> length (rs_NamespaceSummary resp) = length (er_NamespaceSummaries result)
   \<and> length (rs_Snapshots resp) = length (er_Snapshots result)
   \<and> length (rs_ContainerLogs resp) = length (er_ContainerLogs result)
   \<and> length (rs_PodMetrics resp) = length (er_PodMetrics result)
   \<and> rs_RootCauses resp = toEventLines (tl_RootCauses t)
   \<and> rs_Timeline resp = (if mode = ''concise'' then [] else toEventLines (tl_Events t))
   \<and> rs_AffectedObjects resp = (if mode = ''concise'' then [] else affectedObjects rng t)
   \<and> rs_Summary resp = (if mode = ''concise'' \<or> mode = ''incident-summary'' then summarise rng t else '''')"
  by (simp add: Build_def Let_def mode_defs toNamespaceSummaryLines_def toSnapshotLines_def
      toContainerLogLines_def toPodMetricsLines_def)

text \<open>
  The affected objects are the objects of the timeline, each exactly once, and the reasons
  in the summary are the reasons of the root causes, each once, in order of first occurrence.
\<close>

theorem affected_and_reasons_exact:
  assumes "go_range rng"
  shows "distinct (affectedObjects rng t)
    \<and> set (affectedObjects rng t) = el_Object ` set (toEventLines (tl_Events t))
    \<and> distinct (uniqueReasons {} (tl_RootCauses t))
    \<and> set (uniqueReasons {} (tl_RootCauses t)) = Reason ` set (tl_RootCauses t)
    \<and> subseq (uniqueReasons {} (tl_RootCauses t)) (map Reason (tl_RootCauses t))"
  using affectedObjects_spec [OF assms] uniqueReasons_spec [of "{}"] uniqueReasons_subseq
  by (simp add: toEventLines_def image_image)

theorem affected_and_reasons_exact_witness:
  "affectedObjects sorted_list_of_set ctimeline = [''Pod/web'']
   \<and> set (affectedObjects sorted_list_of_set ctimeline) = el_Object ` set (toEventLines (tl_Events ctimeline))"
proof -
  have "affectedObjects sorted_list_of_set ctimeline = [''Pod/web'']" by code_simp
  then show ?thesis using affected_and_reasons_exact [OF go_range_sorted, of ctimeline] by blast
qed

text \<open>
  C40. The summary of a correlated timeline always names a root cause when there are events:
  the branch without a clear root cause is never taken, and the number of additional events is
  never negative.
\<close>

theorem summarise_names_root_cause:
  assumes "runtime_ok erng grng sortE sortC" "t = Correlate erng grng sortE sortC evs" "tl_Events t \<noteq> []"
  shows "uniqueReasons {} (tl_RootCauses t) \<noteq> [] \<and> length (tl_RootCauses t) \<le> length (tl_Events t)
    \<and> summarise rng t =
        ''Detected '' @ Itoa (int (length (tl_Events t))) @ '' events across '' @ Itoa (int (length (affectedObjects rng t)))
           @ '' object(s). Probable root cause(s): '' @ Join (uniqueReasons {} (tl_RootCauses t)) '', '' @ ''. ''
           @ ''Downstream effects: '' @ Itoa (int (length (tl_Events t) - length (tl_RootCauses t)))
           @ '' additional event(s) observed. Affected: '' @ Join (affectedObjects rng t) '', '' @ ''.''"
proof -
  have rc: "tl_RootCauses t \<noteq> []" using Correlate_has_root [OF assms(1,2)] assms(3) by blast
  have le: "length (tl_RootCauses t) \<le> length (tl_Events t)"
    using assms(2) by (simp add: Correlate_def Let_def)
  have "uniqueReasons {} (tl_RootCauses t) \<noteq> []" using rc by (cases "tl_RootCauses t") simp_all
  then show ?thesis using rc le assms(3) by (simp add: summarise_def Let_def of_nat_diff)
qed

theorem summarise_names_root_cause_witness:
  "uniqueReasons {} (tl_RootCauses ctimeline) = [''Unhealthy'']
   \<and> length (tl_RootCauses ctimeline) \<le> length (tl_Events ctimeline)"
proof -
  have "tl_Events ctimeline \<noteq> []" using ctimeline_member by auto
  moreover have "uniqueReasons {} (tl_RootCauses ctimeline) = [''Unhealthy'']" by code_simp
  ultimately show ?thesis
    using summarise_names_root_cause [OF runtime_ok_example ctimeline_def] by blast
qed

end
