(* ===== verification/Llm.thy ===== *)
theory Llm
  imports Correlation Json
begin

text \<open>
  Package \<^verbatim>\<open>pkg/llm\<close>: the prompts (\<^verbatim>\<open>prompt.go\<close>), the interface of a backend
  (\<^verbatim>\<open>llm.go\<close>) and the client of the Ollama HTTP API (\<^verbatim>\<open>ollama.go\<close>).

  The quoting verb \<^verbatim>\<open>%q\<close> and the time layout of the prompts are the arguments \<open>quote\<close> and
  \<open>rfc3339\<close>. The HTTP exchange is the argument \<open>http\<close>: what the server and the network answer to
  a POST of a body to a URL.
\<close>

section \<open>Prompts\<close>

definition emDash :: string where
  "emDash = [CHR 0xE2, CHR 0x80, CHR 0x94]"

definition ExtractIntentSystem :: string where
  \<open>ExtractIntentSystem =
      ''You are a Kubernetes observability assistant.\<newline>'' @
      ''Extract structured query parameters from the user's question and reply with a\<newline>'' @
      ''JSON object only '' @ emDash @ '' no explanation, no markdown fences.\<newline>'' @
      ''\<newline>'' @
      ''JSON schema:\<newline>'' @
      ''{\<newline>'' @
      ''  "namespace":    string,  // Kubernetes namespace; empty = all\<newline>'' @
      ''  "object_kind":  string,  // e.g. "Pod", "Deployment"; empty if not specified\<newline>'' @
      ''  "object_name":  string,  // specific resource name; empty if not specified\<newline>'' @
      ''  "reason":       string,  // Kubernetes event Reason filter; empty if not specified\<newline>'' @
      ''  "since_minutes": number, // look-back window; 0 = no bound; default 60\<newline>'' @
      ''  "intent":       string   // one of: NamespaceOverview | ExplainObjectIssue | ExplainRestarts | BuildTimeline\<newline>'' @
      ''}\<newline>'' @
      ''\<newline>'' @
      ''Intent rules:\<newline>'' @
      ''- NamespaceOverview  '' @ emDash @ '' broad "what's wrong in <namespace>" questions\<newline>'' @
      ''- ExplainObjectIssue '' @ emDash @ '' questions about a specific named resource\<newline>'' @
      ''- ExplainRestarts    '' @ emDash @ '' questions about pod restarts / CrashLoopBackOff\<newline>'' @
      ''- BuildTimeline      '' @ emDash @ '' questions asking for an event timeline or history''\<close>

definition ExtractIntentUser :: "string \<Rightarrow> string" where
  "ExtractIntentUser question = question"

definition rootCauseRow :: "(time \<Rightarrow> string) \<Rightarrow> CorrelatedEvent \<Rightarrow> string" where
  "rootCauseRow rfc3339 rc =
     ''  ['' @ rfc3339 (LastSeen rc) @ ''] '' @ InvolvedObjectKind rc @ ''/'' @ InvolvedObjectName rc
     @ '' '' @ emDash @ '' '' @ Reason rc @ '': '' @ Message rc @ ''\<newline>''"

definition timelineRow :: "(time \<Rightarrow> string) \<Rightarrow> CorrelatedEvent \<Rightarrow> string" where
  "timelineRow rfc3339 e =
     (let marker = (if IsRootCause e then '' [ROOT CAUSE]''
                    else if CausedBy e \<noteq> '''' then '' [caused by '' @ CausedBy e @ '']''
                    else '''')
      in ''  ['' @ rfc3339 (LastSeen e) @ ''] '' @ InvolvedObjectKind e @ ''/'' @ InvolvedObjectName e
         @ '' '' @ emDash @ '' '' @ Reason e @ '': '' @ Message e @ '' (count='' @ Itoa (sint (Count e)) @ '')''
         @ marker @ ''\<newline>'')"

definition SummarizeTimeline :: "(string \<Rightarrow> string) \<Rightarrow> (time \<Rightarrow> string) \<Rightarrow> string \<Rightarrow> Timeline \<Rightarrow> string" where
  "SummarizeTimeline quote rfc3339 question t =
     (if tl_Events t = [] then
        ''The user asked: '' @ quote question @ ''\<newline>\<newline>No Kubernetes events were found for this query. ''
        @ ''Reply with a brief, helpful message explaining that no issues were detected.''
      else
        ''The user asked: '' @ quote question @ ''\<newline>\<newline>''
        @ ''Here is a structured summary of relevant Kubernetes events:\<newline>\<newline>''
        @ (if tl_RootCauses t \<noteq> [] then
             ''ROOT CAUSES:\<newline>'' @ concat (map (rootCauseRow rfc3339) (tl_RootCauses t)) @ ''\<newline>''
           else '''')
        @ ''EVENT TIMELINE (chronological):\<newline>''
        @ concat (map (timelineRow rfc3339) (tl_Events t))
        @ ''\<newline>Using only the information above, provide a clear, concise diagnosis. ''
        @ ''Explain the root cause(s), the downstream effects, and suggest a remediation step if obvious. ''
        @ ''Do not invent information not present in the events.'')"

section \<open>Backends\<close>

text \<open>An error of a backend: a failed exchange, or an answer that is not the expected JSON.\<close>

datatype llm_error = LlmFailed string | LlmDecode string json_error

record llm_Client =
  llm_Summarize :: "string \<Rightarrow> llm_error + string"
  llm_Chat :: "string \<Rightarrow> string \<Rightarrow> llm_error + string"

section \<open>Ollama\<close>

record OllamaClient =
  oc_baseURL :: string
  oc_model :: string

definition NewOllama :: "string \<Rightarrow> string \<Rightarrow> OllamaClient" where
  "NewOllama baseURL model = \<lparr>oc_baseURL = baseURL, oc_model = model\<rparr>"

definition NewOllamaFromEnv :: "(string \<Rightarrow> string) \<Rightarrow> OllamaClient" where
  "NewOllamaFromEnv Getenv =
     (let baseURL = Getenv ''OLLAMA_BASE_URL'';
          baseURL = (if baseURL = '''' then ''http://localhost:11434'' else baseURL);
          model = Getenv ''OLLAMA_MODEL'';
          model = (if model = '''' then ''llama3'' else model)
      in NewOllama baseURL model)"

record generateRequest =
  gr_Model :: string
  gr_Prompt :: string
  gr_Stream :: bool

record generateResponse =
  gs_Response :: string

record chatMessage =
  cm_Role :: string
  cm_Content :: string

record chatRequest =
  cr_Model :: string
  cr_Messages :: "chatMessage list"
  cr_Stream :: bool

record chatResponse =
  cs_Message :: chatMessage

definition encodeGenerate :: "generateRequest \<Rightarrow> json" where
  "encodeGenerate r =
     JObj [(''model'', JStr (gr_Model r)), (''prompt'', JStr (gr_Prompt r)), (''stream'', JBool (gr_Stream r))]"

definition encodeMessage :: "chatMessage \<Rightarrow> json" where
  "encodeMessage m = JObj [(''role'', JStr (cm_Role m)), (''content'', JStr (cm_Content m))]"

definition encodeChat :: "chatRequest \<Rightarrow> json" where
  "encodeChat r =
     JObj [(''model'', JStr (cr_Model r)), (''messages'', JArr (map encodeMessage (cr_Messages r))),
           (''stream'', JBool (cr_Stream r))]"

definition generateFields :: "generateResponse fields" where
  "generateFields = [(''response'', field gs_Response (\<lambda>x r. r \<lparr>gs_Response := x\<rparr>) decString)]"

definition messageFields :: "chatMessage fields" where
  "messageFields =
     [(''role'', field cm_Role (\<lambda>x r. r \<lparr>cm_Role := x\<rparr>) decString),
      (''content'', field cm_Content (\<lambda>x r. r \<lparr>cm_Content := x\<rparr>) decString)]"

definition chatFields :: "chatResponse fields" where
  "chatFields = [(''message'', field cs_Message (\<lambda>x r. r \<lparr>cs_Message := x\<rparr>) (decStruct messageFields))]"

text \<open>
  What an exchange may come to: a URL that makes no request, a failed round trip, a body that
  cannot be read, or a status code and a body.
\<close>

datatype http_result =
    BadURL string
  | RoundTripFailed string
  | BodyUnreadable string
  | HttpResponse nat string

type_synonym http = "string \<Rightarrow> string \<Rightarrow> http_result"

definition post :: "http \<Rightarrow> OllamaClient \<Rightarrow> string \<Rightarrow> string \<Rightarrow> llm_error + string" where
  "post http c path body =
     (case http (oc_baseURL c @ path) body of
        BadURL err \<Rightarrow> Inl (LlmFailed err)
      | RoundTripFailed err \<Rightarrow> Inl (LlmFailed (''ollama '' @ path @ '': '' @ err))
      | BodyUnreadable err \<Rightarrow> Inl (LlmFailed (''ollama '' @ path @ '' read: '' @ err))
      | HttpResponse code data \<Rightarrow>
          if 300 \<le> code then Inl (LlmFailed (''ollama '' @ path @ '' status '' @ Itoa (int code) @ '': '' @ data))
          else Inr data)"

definition Summarize :: "http \<Rightarrow> OllamaClient \<Rightarrow> string \<Rightarrow> llm_error + string" where
  "Summarize http c prompt =
     (let body = Marshal (encodeGenerate \<lparr>gr_Model = oc_model c, gr_Prompt = prompt, gr_Stream = False\<rparr>)
      in case post http c ''/api/generate'' body of
           Inl err \<Rightarrow> Inl err
         | Inr resp \<Rightarrow>
             (case Unmarshal (decStruct generateFields \<lparr>gs_Response = ''''\<rparr>) resp of
                Inl err \<Rightarrow> Inl (LlmDecode ''ollama generate decode: '' err)
              | Inr gr \<Rightarrow> Inr (gs_Response gr)))"

definition Chat :: "http \<Rightarrow> OllamaClient \<Rightarrow> string \<Rightarrow> string \<Rightarrow> llm_error + string" where
  "Chat http c system user =
     (let msgs = [\<lparr>cm_Role = ''system'', cm_Content = system\<rparr>, \<lparr>cm_Role = ''user'', cm_Content = user\<rparr>];
          body = Marshal (encodeChat \<lparr>cr_Model = oc_model c, cr_Messages = msgs, cr_Stream = False\<rparr>)
      in case post http c ''/api/chat'' body of
           Inl err \<Rightarrow> Inl err
         | Inr resp \<Rightarrow>
             (case Unmarshal (decStruct chatFields \<lparr>cs_Message = \<lparr>cm_Role = '''', cm_Content = ''''\<rparr>\<rparr>) resp of
                Inl err \<Rightarrow> Inl (LlmDecode ''ollama chat decode: '' err)
              | Inr cr \<Rightarrow> Inr (cm_Content (cs_Message cr))))"

definition ollamaClient :: "http \<Rightarrow> OllamaClient \<Rightarrow> llm_Client" where
  "ollamaClient http c = \<lparr>llm_Summarize = Summarize http c, llm_Chat = Chat http c\<rparr>"

section \<open>The exchange with a server\<close>

lemma generate_member:
  "decStruct generateFields r (JObj (before @ (''response'', JStr s) # after)) = Inr \<lparr>gs_Response = s\<rparr>"
  if "\<And>kv. kv \<in> set (before @ after) \<Longrightarrow> foldName (fst kv) \<noteq> foldName ''response''"
proof -
  have "findField generateFields (fst kv) = None" if "kv \<in> set (before @ after)" for kv
    using that \<open>\<And>kv. kv \<in> set (before @ after) \<Longrightarrow> _\<close> [OF that]
    by (intro findField_None) (simp add: generateFields_def)
  moreover have "decMember generateFields r (''response'', JStr s) = Inr \<lparr>gs_Response = s\<rparr>"
    by (simp add: decMember_def findField_def generateFields_def field_def decString_def)
  ultimately show ?thesis by (rule decStruct_known)
qed

lemma chat_member:
  "decStruct chatFields r (JObj (before @ (''message'', JObj [(''role'', JStr role), (''content'', JStr s)]) # after)) =
     Inr \<lparr>cs_Message = \<lparr>cm_Role = role, cm_Content = s\<rparr>\<rparr>"
  if "\<And>kv. kv \<in> set (before @ after) \<Longrightarrow> foldName (fst kv) \<noteq> foldName ''message''"
proof -
  have "findField chatFields (fst kv) = None" if "kv \<in> set (before @ after)" for kv
    using that \<open>\<And>kv. kv \<in> set (before @ after) \<Longrightarrow> _\<close> [OF that]
    by (intro findField_None) (simp add: chatFields_def)
  moreover have "decMember chatFields r (''message'', JObj [(''role'', JStr role), (''content'', JStr s)]) =
      Inr \<lparr>cs_Message = \<lparr>cm_Role = role, cm_Content = s\<rparr>\<rparr>"
    by (simp add: decMember_def findField_def chatFields_def messageFields_def field_def decString_def decStruct_def)
  ultimately show ?thesis by (rule decStruct_known)
qed

lemma parse_Marshal:
  "numsOk v \<Longrightarrow> int (height v) \<le> maxNestingDepth \<Longrightarrow> parseJSON (Marshal v) = Inr (normJSON v)"
  by (simp add: Marshal_def compact.parse_render)

text \<open>
  A completion reaches the caller unchanged: the client posts a JSON object with its model,
  the prompt and no streaming, and when the server answers with a status below 300 and a JSON
  object that has the completion among any other members, the client returns exactly this text.
\<close>

theorem Summarize_transmits:
  assumes "body = Marshal (encodeGenerate \<lparr>gr_Model = oc_model c, gr_Prompt = prompt, gr_Stream = False\<rparr>)"
    and "http (oc_baseURL c @ ''/api/generate'') body = HttpResponse code data" "code < 300"
    and "parseJSON data = Inr (JObj (before @ (''response'', JStr s) # after))"
    and "\<forall>kv \<in> set (before @ after). foldName (fst kv) \<noteq> foldName ''response''"
  shows "parseJSON body =
      Inr (JObj [(''model'', JStr (toValid (oc_model c))), (''prompt'', JStr (toValid prompt)), (''stream'', JBool False)])
    \<and> Summarize http c prompt = Inr s"
proof
  show "parseJSON body =
      Inr (JObj [(''model'', JStr (toValid (oc_model c))), (''prompt'', JStr (toValid prompt)), (''stream'', JBool False)])"
    by (simp add: assms(1) parse_Marshal encodeGenerate_def maxNestingDepth_def)
  show "Summarize http c prompt = Inr s"
    using assms(2-4) generate_member [OF bspec [OF assms(5)]]
    by (simp add: Summarize_def post_def Unmarshal_def flip: assms(1))
qed

definition exampleOllama :: OllamaClient where
  "exampleOllama = NewOllamaFromEnv (\<lambda>_. '''')"

definition exampleCompletion :: string where
  \<open>exampleCompletion = ''{"model":"llama3","response":"the pod was <killed>","done":true}''\<close>

definition exampleReply :: string where
  \<open>exampleReply = ''{"message": {"role":"assistant","content":"{}"}, "done": true}''\<close>

text \<open>A server with one completion and one reply.\<close>

definition exampleHttp :: http where
  "exampleHttp url _ = (if url = ''http://localhost:11434/api/generate'' then HttpResponse 200 exampleCompletion
     else if url = ''http://localhost:11434/api/chat'' then HttpResponse 200 exampleReply
     else RoundTripFailed ''connection refused'')"

theorem Summarize_transmits_witness:
  "Summarize exampleHttp exampleOllama ''why?'' = Inr ''the pod was <killed>''"
proof -
  have http: "exampleHttp (oc_baseURL exampleOllama @ ''/api/generate'') b = HttpResponse 200 exampleCompletion" for b
    by (simp add: exampleHttp_def exampleOllama_def NewOllamaFromEnv_def NewOllama_def)
  have parsed: "parseJSON exampleCompletion = Inr (JObj ([(''model'', JStr ''llama3'')] @
      (''response'', JStr ''the pod was <killed>'') # [(''done'', JBool True)]))" by code_simp
  have "foldName ''model'' \<noteq> foldName ''response''" "foldName ''done'' \<noteq> foldName ''response''" by code_simp+
  then have names: "\<forall>kv \<in> set ([(''model'', JStr ''llama3'')] @ [(''done'', JBool True)]). foldName (fst kv) \<noteq> foldName ''response''"
    by simp
  show ?thesis
    using Summarize_transmits [where c = exampleOllama and http = exampleHttp, OF refl http _ parsed names] by simp
qed

text \<open>
  C29. A conversation reaches the server as the two messages, system first, and the content of the
  assistant's message is returned unchanged; every failed exchange, every status from 300 on and
  every answer that is not the expected JSON is an error.
\<close>

theorem Chat_transmits:
  assumes "body = Marshal (encodeChat \<lparr>cr_Model = oc_model c,
      cr_Messages = [\<lparr>cm_Role = ''system'', cm_Content = system\<rparr>, \<lparr>cm_Role = ''user'', cm_Content = user\<rparr>],
      cr_Stream = False\<rparr>)"
    and "result = http (oc_baseURL c @ ''/api/chat'') body"
  shows "parseJSON body = Inr (JObj [(''model'', JStr (toValid (oc_model c))),
        (''messages'', JArr [JObj [(''role'', JStr ''system''), (''content'', JStr (toValid system))],
                             JObj [(''role'', JStr ''user''), (''content'', JStr (toValid user))]]),
        (''stream'', JBool False)])
    \<and> (\<forall>code data before role s after.
         result = HttpResponse code data \<and> code < 300
         \<and> parseJSON data = Inr (JObj (before @ (''message'', JObj [(''role'', JStr role), (''content'', JStr s)]) # after))
         \<and> (\<forall>kv \<in> set (before @ after). foldName (fst kv) \<noteq> foldName ''message'')
         \<longrightarrow> Chat http c system user = Inr s)
    \<and> ((\<forall>code data. result \<noteq> HttpResponse code data) \<or> (\<exists>code data. result = HttpResponse code data \<and>
           (300 \<le> code \<or> isl (parseJSON data))) \<longrightarrow> isl (Chat http c system user))"
proof (intro conjI allI impI)
  show "parseJSON body = Inr (JObj [(''model'', JStr (toValid (oc_model c))),
        (''messages'', JArr [JObj [(''role'', JStr ''system''), (''content'', JStr (toValid system))],
                             JObj [(''role'', JStr ''user''), (''content'', JStr (toValid user))]]),
        (''stream'', JBool False)])"
    by (simp add: assms(1) parse_Marshal encodeChat_def encodeMessage_def maxNestingDepth_def)
next
  fix code data before role s after
  assume h: "result = HttpResponse code data \<and> code < 300
      \<and> parseJSON data = Inr (JObj (before @ (''message'', JObj [(''role'', JStr role), (''content'', JStr s)]) # after))
      \<and> (\<forall>kv \<in> set (before @ after). foldName (fst kv) \<noteq> foldName ''message'')"
  then show "Chat http c system user = Inr s"
    using chat_member [of before after] assms(2)
    by (simp add: Chat_def post_def Unmarshal_def Let_def flip: assms(1))
next
  assume "(\<forall>code data. result \<noteq> HttpResponse code data) \<or> (\<exists>code data. result = HttpResponse code data \<and>
      (300 \<le> code \<or> isl (parseJSON data)))"
  then show "isl (Chat http c system user)"
    unfolding assms(2) by (auto simp: Chat_def post_def Unmarshal_def Let_def isl_def simp flip: assms(1) split: http_result.split)
qed

theorem Chat_transmits_witness:
  "Chat exampleHttp exampleOllama ExtractIntentSystem ''why?'' = Inr ''{}''"
proof -
  have http: "exampleHttp (oc_baseURL exampleOllama @ ''/api/chat'') b = HttpResponse 200 exampleReply" for b
    by (simp add: exampleHttp_def exampleOllama_def NewOllamaFromEnv_def NewOllama_def)
  have parsed: "parseJSON exampleReply = Inr (JObj ([] @
      (''message'', JObj [(''role'', JStr ''assistant''), (''content'', JStr ''{}'')]) # [(''done'', JBool True)]))" by code_simp
  have names: "foldName ''done'' \<noteq> foldName ''message''" by code_simp
  show ?thesis
    using Chat_transmits [where c = exampleOllama and http = exampleHttp and system = ExtractIntentSystem and user = "''why?''",
        OF refl refl] http parsed names by fastforce
qed

end
