(* ===== verification/Gateway.thy ===== *)
theory Gateway
  imports Response Llm
begin

text \<open>
  The HTTP interface of the coordinator: the configuration (\<^verbatim>\<open>config.go\<close>), the handlers and the
  routes of \<^verbatim>\<open>internal/app/coordinator/gateway.go\<close>, and the start of the coordinator
  (\<^verbatim>\<open>coordinator.go\<close>).

  A handler maps the gateway's state (registry and outside world) and a request to a reply
  (status code and body) and the new state. Arguments stand for what comes from outside: the
  clock, the LLM backend, the cluster agents and, in the record \<open>env\<close>, the choices that the
  language leaves open. Request bodies are bytes, decoded by the model of \<^verbatim>\<open>encoding/json\<close>;
  the body of a reply is kept as the value that is encoded, and an error text that ends in the
  text of another error keeps this error.
\<close>

section \<open>Configuration\<close>

record coord_Config =
  cc_HTTPAddr :: string
  cc_RegistryToken :: string
  cc_RegistryFile :: string
  cc_OllamaBaseURL :: string
  cc_OllamaModel :: string

definition coord_envOrDefault :: "(string \<Rightarrow> string) \<Rightarrow> string \<Rightarrow> string \<Rightarrow> string" where
  "coord_envOrDefault Getenv key def = (let v = Getenv key in if v \<noteq> '''' then v else def)"

definition coord_fromEnv :: "(string \<Rightarrow> string) \<Rightarrow> coord_Config" where
  "coord_fromEnv Getenv =
     \<lparr> cc_HTTPAddr = coord_envOrDefault Getenv ''MCP_HTTP_ADDR'' '':8080'',
       cc_RegistryToken = Getenv ''MCP_REGISTRY_TOKEN'',
       cc_RegistryFile = Getenv ''MCP_REGISTRY_FILE'',
       cc_OllamaBaseURL = Getenv ''OLLAMA_BASE_URL'',
       cc_OllamaModel = coord_envOrDefault Getenv ''OLLAMA_MODEL'' ''llama3'' \<rparr>"

section \<open>Requests and replies\<close>

record QueryRequest =
  qr_ClusterName :: string
  qr_Namespace :: string
  qr_ObjectKind :: string
  qr_ObjectName :: string
  qr_Reason :: string
  qr_SinceMinutes :: go_int
  qr_Limit :: go_int
  qr_Intent :: string
  qr_Mode :: string

record RegisterRequest =
  rr_ClusterName :: string
  rr_GRPCEndpoint :: string
  rr_Labels :: "(string, string) fmap"

record AskRequest =
  ar_ClusterName :: string
  ar_Question :: string
  ar_Namespace :: string
  ar_Mode :: string

record intentPayload =
  ip_Namespace :: string
  ip_ObjectKind :: string
  ip_ObjectName :: string
  ip_Reason :: string
  ip_SinceMinutes :: go_int
  ip_Intent :: string

record AskResponse =
  as_Response :: Response
  as_Answer :: string

datatype body =
    ErrorBody string
  | DecodeErrorBody string json_error
  | LlmErrorBody string llm_error
  | ExecErrorBody string exec_error
  | StatusBody string
  | QueryBody Response
  | AskBody AskResponse
  | ListBody "ClusterEntry list"
  | TextBody string

type_synonym reply = "nat \<times> body"

record 'ts env =
  e_tnew :: "time \<Rightarrow> 'ts"
  e_astime :: "'ts \<Rightarrow> time"
  e_dial :: "string \<Rightarrow> string option"
  e_service :: "conn \<Rightarrow> nat \<Rightarrow> 'ts agent_client"
  e_erng :: "string set \<Rightarrow> string list"
  e_grng :: "string set \<Rightarrow> string list"
  e_sortE :: "NormalizedEvent list \<Rightarrow> NormalizedEvent list"
  e_sortC :: "CorrelatedEvent list \<Rightarrow> CorrelatedEvent list"
  e_now :: time

section \<open>Decoding of requests\<close>

definition queryFields :: "QueryRequest fields" where
  "queryFields =
     [(''cluster_name'', field qr_ClusterName (\<lambda>x r. r \<lparr>qr_ClusterName := x\<rparr>) decString),
      (''namespace'', field qr_Namespace (\<lambda>x r. r \<lparr>qr_Namespace := x\<rparr>) decString),
      (''object_kind'', field qr_ObjectKind (\<lambda>x r. r \<lparr>qr_ObjectKind := x\<rparr>) decString),
      (''object_name'', field qr_ObjectName (\<lambda>x r. r \<lparr>qr_ObjectName := x\<rparr>) decString),
      (''reason'', field qr_Reason (\<lambda>x r. r \<lparr>qr_Reason := x\<rparr>) decString),
      (''since_minutes'', field qr_SinceMinutes (\<lambda>x r. r \<lparr>qr_SinceMinutes := x\<rparr>) decInt),
      (''limit'', field qr_Limit (\<lambda>x r. r \<lparr>qr_Limit := x\<rparr>) decInt),
      (''intent'', field qr_Intent (\<lambda>x r. r \<lparr>qr_Intent := x\<rparr>) decString),
      (''mode'', field qr_Mode (\<lambda>x r. r \<lparr>qr_Mode := x\<rparr>) decString)]"

definition decodeQuery :: "string \<Rightarrow> json_error + QueryRequest" where
  "decodeQuery bdy = Decode (decStruct queryFields
     \<lparr> qr_ClusterName = '''', qr_Namespace = '''', qr_ObjectKind = '''', qr_ObjectName = '''', qr_Reason = '''',
       qr_SinceMinutes = 0, qr_Limit = 0, qr_Intent = '''', qr_Mode = '''' \<rparr>) bdy"

definition registerFields :: "RegisterRequest fields" where
  "registerFields =
     [(''cluster_name'', field rr_ClusterName (\<lambda>x r. r \<lparr>rr_ClusterName := x\<rparr>) decString),
      (''grpc_endpoint'', field rr_GRPCEndpoint (\<lambda>x r. r \<lparr>rr_GRPCEndpoint := x\<rparr>) decString),
      (''labels'', field rr_Labels (\<lambda>x r. r \<lparr>rr_Labels := x\<rparr>) decStringMap)]"

definition decodeRegister :: "string \<Rightarrow> json_error + RegisterRequest" where
  "decodeRegister bdy = Decode (decStruct registerFields
     \<lparr>rr_ClusterName = '''', rr_GRPCEndpoint = '''', rr_Labels = fmempty\<rparr>) bdy"

definition askFields :: "AskRequest fields" where
  "askFields =
     [(''cluster'', field ar_ClusterName (\<lambda>x r. r \<lparr>ar_ClusterName := x\<rparr>) decString),
      (''question'', field ar_Question (\<lambda>x r. r \<lparr>ar_Question := x\<rparr>) decString),
      (''namespace'', field ar_Namespace (\<lambda>x r. r \<lparr>ar_Namespace := x\<rparr>) decString),
      (''mode'', field ar_Mode (\<lambda>x r. r \<lparr>ar_Mode := x\<rparr>) decString)]"

definition decodeAsk :: "string \<Rightarrow> json_error + AskRequest" where
  "decodeAsk bdy = Decode (decStruct askFields
     \<lparr>ar_ClusterName = '''', ar_Question = '''', ar_Namespace = '''', ar_Mode = ''''\<rparr>) bdy"

definition intentFields :: "intentPayload fields" where
  "intentFields =
     [(''namespace'', field ip_Namespace (\<lambda>x r. r \<lparr>ip_Namespace := x\<rparr>) decString),
      (''object_kind'', field ip_ObjectKind (\<lambda>x r. r \<lparr>ip_ObjectKind := x\<rparr>) decString),
      (''object_name'', field ip_ObjectName (\<lambda>x r. r \<lparr>ip_ObjectName := x\<rparr>) decString),
      (''reason'', field ip_Reason (\<lambda>x r. r \<lparr>ip_Reason := x\<rparr>) decString),
      (''since_minutes'', field ip_SinceMinutes (\<lambda>x r. r \<lparr>ip_SinceMinutes := x\<rparr>) decInt),
      (''intent'', field ip_Intent (\<lambda>x r. r \<lparr>ip_Intent := x\<rparr>) decString)]"

definition unmarshalIntent :: "string \<Rightarrow> json_error + intentPayload" where
  "unmarshalIntent raw = Unmarshal (decStruct intentFields
     \<lparr> ip_Namespace = '''', ip_ObjectKind = '''', ip_ObjectName = '''', ip_Reason = '''', ip_SinceMinutes = 0,
       ip_Intent = '''' \<rparr>) raw"


text \<open>The gateway: the token, and the LLM client if one is configured.\<close>

record gateway =
  gw_token :: string
  gw_llm :: "llm_Client option"

section \<open>Helpers\<close>

definition parseIntent :: "string \<Rightarrow> Intent" where
  "parseIntent s =
     (if s = ''NamespaceOverview'' then IntentNamespaceOverview
      else if s = ''ExplainObjectIssue'' then IntentExplainObjectIssue
      else if s = ''ExplainRestarts'' then IntentExplainRestarts
      else if s = ''BuildTimeline'' then IntentBuildTimeline
      else IntentUnknown)"

definition parseMode :: "string \<Rightarrow> ResponseMode" where
  "parseMode s =
     (if s = ''concise'' then ResponseModeConcise
      else if s = ''incident-summary'' then ResponseModeIncidentSummary
      else ResponseModeTechnical)"

text \<open>
  \<^verbatim>\<open>time.Now().Add(-time.Duration(m) * time.Minute)\<close>: the duration is a 64-bit integer of
  nanoseconds, and the negation and the product wrap around.
\<close>

definition sinceOf :: "time \<Rightarrow> go_int \<Rightarrow> time" where
  "sinceOf now m = (if 0 < sint m then now + sint ((- m) * of_int Minute :: go_int) else zero_time)"

definition stripFences :: "string \<Rightarrow> string" where
  "stripFences raw =
     (let raw = TrimSpace raw;
          raw = TrimPrefix raw ''```json'';
          raw = TrimPrefix raw ''```'';
          raw = TrimSuffix raw ''```''
      in TrimSpace raw)"

definition parseIntentJSON ::
  "time \<Rightarrow> string \<Rightarrow> string \<Rightarrow> string \<Rightarrow> json_error + plan_Query" where
  "parseIntentJSON now raw clusterName fallbackNS =
     (case unmarshalIntent (stripFences raw) of
        Inl err \<Rightarrow> Inl err
      | Inr p \<Rightarrow>
          let ns = ip_Namespace p;
              ns = (if ns = '''' then fallbackNS else ns)
          in Inr \<lparr> q_ClusterName = clusterName, q_Namespace = ns, q_ObjectKind = ip_ObjectKind p,
                   q_ObjectName = ip_ObjectName p, q_Reason = ip_Reason p, q_Since = sinceOf now (ip_SinceMinutes p),
                   q_Limit = 0, q_Intent = parseIntent (ip_Intent p) \<rparr>)"

text \<open>\<open>auth\<close> is the value of the Authorization header, empty when there is none.\<close>

definition requireToken :: "gateway \<Rightarrow> string \<Rightarrow> bool" where
  "requireToken g auth = (if gw_token g = '''' then True else TrimPrefix auth ''Bearer '' = gw_token g)"

definition unauthorized :: reply where
  "unauthorized = (401, ErrorBody ''invalid or missing token'')"

section \<open>Handlers\<close>

definition handleHealth :: reply where
  "handleHealth = (200, StatusBody ''ok'')"

definition correlate :: "'ts env \<Rightarrow> NormalizedEvent list \<Rightarrow> Timeline" where
  "correlate e evs = Correlate (e_erng e) (e_grng e) (e_sortE e) (e_sortC e) evs"

definition resultStatus :: "'ts ExecutionResult \<Rightarrow> nat" where
  "resultStatus result =
     (if er_StepErrors result \<noteq> [] \<and> er_Events result = [] \<and> er_Snapshots result = [] then 207 else 200)"

definition handleQuery ::
  "'ts env \<Rightarrow> string \<Rightarrow> Registry \<times> World \<Rightarrow> reply \<times> Registry \<times> World" where
  "handleQuery e bdy rw =
     (case decodeQuery bdy of
        Inl err \<Rightarrow> ((400, DecodeErrorBody ''invalid request body: '' err), rw)
      | Inr req \<Rightarrow>
          if qr_ClusterName req = '''' then ((400, ErrorBody ''cluster_name is required''), rw)
          else
            let q = \<lparr> q_ClusterName = qr_ClusterName req, q_Namespace = qr_Namespace req,
                      q_ObjectKind = qr_ObjectKind req, q_ObjectName = qr_ObjectName req,
                      q_Reason = qr_Reason req, q_Since = sinceOf (e_now e) (qr_SinceMinutes req),
                      q_Limit = qr_Limit req, q_Intent = parseIntent (qr_Intent req) \<rparr>
            in case makePlan q of
                 Inl err \<Rightarrow> ((400, ErrorBody (''plan error: '' @ err)), rw)
               | Inr plan \<Rightarrow>
                   (case Execute (e_tnew e) (e_astime e) (e_dial e) (e_service e) plan rw of
                      (Inl err, rw') \<Rightarrow> ((502, ExecErrorBody ''execution error: '' err), rw')
                    | (Inr result, rw') \<Rightarrow>
                        let timeline = correlate e (er_Events result);
                            mode = parseMode (qr_Mode req);
                            resp = Build (e_astime e) (e_grng e) (qr_ClusterName req) mode timeline result
                        in ((resultStatus result, QueryBody resp), rw')))"

definition handleAsk ::
  "'ts env \<Rightarrow> (string \<Rightarrow> string) \<Rightarrow> (time \<Rightarrow> string) \<Rightarrow> gateway \<Rightarrow> string \<Rightarrow> Registry \<times> World \<Rightarrow> reply \<times> Registry \<times> World" where
  "handleAsk e quote rfc3339 g bdy rw =
     (case gw_llm g of
        None \<Rightarrow> ((503, ErrorBody ''LLM not configured (set OLLAMA_BASE_URL)''), rw)
      | Some llm \<Rightarrow>
        (case decodeAsk bdy of
           Inl err \<Rightarrow> ((400, DecodeErrorBody ''invalid request body: '' err), rw)
         | Inr req \<Rightarrow>
           if ar_ClusterName req = '''' then ((400, ErrorBody ''cluster is required''), rw)
           else if ar_Question req = '''' then ((400, ErrorBody ''question is required''), rw)
           else case llm_Chat llm ExtractIntentSystem (ExtractIntentUser (ar_Question req)) of
             Inl err \<Rightarrow> ((502, LlmErrorBody ''LLM error: '' err), rw)
           | Inr intentJSON \<Rightarrow>
             let q = (case parseIntentJSON (e_now e) intentJSON (ar_ClusterName req) (ar_Namespace req) of
                        Inr q \<Rightarrow> q
                      | Inl err \<Rightarrow> \<lparr> q_ClusterName = ar_ClusterName req, q_Namespace = ar_Namespace req,
                          q_ObjectKind = '''', q_ObjectName = '''', q_Reason = '''', q_Since = zero_time,
                          q_Limit = 0, q_Intent = IntentNamespaceOverview \<rparr>)
             in case makePlan q of
                  Inl err \<Rightarrow> ((400, ErrorBody (''plan error: '' @ err)), rw)
                | Inr plan \<Rightarrow>
                  (case Execute (e_tnew e) (e_astime e) (e_dial e) (e_service e) plan rw of
                     (Inl err, rw') \<Rightarrow> ((502, ExecErrorBody ''execution error: '' err), rw')
                   | (Inr result, rw') \<Rightarrow>
                     let timeline = correlate e (er_Events result);
                         mode = parseMode (ar_Mode req);
                         structured = Build (e_astime e) (e_grng e) (ar_ClusterName req) mode timeline result;
                         narrative = (case llm_Summarize llm (SummarizeTimeline quote rfc3339 (ar_Question req) timeline) of
                                        Inr s \<Rightarrow> s
                                      | Inl err \<Rightarrow> rs_Summary structured)
                     in ((resultStatus result, AskBody \<lparr>as_Response = structured, as_Answer = narrative\<rparr>), rw'))))"

definition handleRegister ::
  "(string set \<Rightarrow> string list) \<Rightarrow> fs_outcome \<Rightarrow> gateway \<Rightarrow> string \<Rightarrow> string \<Rightarrow> Registry \<times> World \<Rightarrow> reply \<times> Registry \<times> World" where
  "handleRegister rng o' g auth bdy rw =
     (if \<not> requireToken g auth then (unauthorized, rw)
      else case decodeRegister bdy of
        Inl err \<Rightarrow> ((400, DecodeErrorBody ''invalid request body: '' err), rw)
      | Inr req \<Rightarrow>
          if rr_ClusterName req = '''' \<or> rr_GRPCEndpoint req = '''' then
            ((400, ErrorBody ''cluster_name and grpc_endpoint are required''), rw)
          else
            ((200, StatusBody ''registered''),
             Register rng o' \<lparr>ent_ClusterName = rr_ClusterName req, ent_GRPCEndpoint = rr_GRPCEndpoint req,
                                      ent_Labels = rr_Labels req\<rparr> rw))"

definition handleUnregister ::
  "(string set \<Rightarrow> string list) \<Rightarrow> fs_outcome
   \<Rightarrow> gateway \<Rightarrow> string \<Rightarrow> string \<Rightarrow> Registry \<times> World \<Rightarrow> reply \<times> Registry \<times> World" where
  "handleUnregister rng o' g auth cluster rw =
     (if \<not> requireToken g auth then (unauthorized, rw)
      else ((200, StatusBody ''unregistered''), Unregister rng o' cluster rw))"

definition handleListRegistry :: "(string set \<Rightarrow> string list) \<Rightarrow> Registry \<times> World \<Rightarrow> reply" where
  "handleListRegistry rng rw = (200, ListBody (List_entries rng (fst rw)))"

section \<open>Lemmas\<close>

lemma TrimPrefix_iff:
  "TrimPrefix s p = t \<longleftrightarrow> s = p @ t \<or> (s = t \<and> \<not> prefix p s)"
  by (auto simp: TrimPrefix_def prefix_def)

text \<open>The registrations, the files and the consistency of the connections are kept.\<close>

definition same_registrations :: "Registry \<times> World \<Rightarrow> Registry \<times> World \<Rightarrow> bool" where
  "same_registrations rw rw' \<longleftrightarrow>
     entries (fst rw') = entries (fst rw) \<and> filePath (fst rw') = filePath (fst rw) \<and> files (snd rw') = files (snd rw)
     \<and> (reg_inv rw \<longrightarrow> reg_inv rw')"

lemma same_registrations_refl [simp]: "same_registrations rw rw"
  by (simp add: same_registrations_def)

lemma Execute_frame:
  assumes "Execute tnew astime dial service plan rw = (x, rw')"
  shows "same_registrations rw rw'"
proof -
  obtain r where client: "Client dial (pl_ClusterName plan) rw = (r, rw')"
    using assms by (auto simp: Execute_def split: prod.splits sum.splits)
  have "entries (fst (snd (Client dial n rw))) = entries (fst rw)" "files (snd (snd (Client dial n rw))) = files (snd rw)"
    "filePath (fst (snd (Client dial n rw))) = filePath (fst rw)" for n
    by (auto simp: Client_def Let_def split: prod.split option.split)
  then show ?thesis using client Client_inv [of rw dial "pl_ClusterName plan"] unfolding same_registrations_def by (metis snd_conv)
qed

text \<open>The query that a decoded request stands for.\<close>

definition queryOf :: "'ts env \<Rightarrow> QueryRequest \<Rightarrow> plan_Query" where
  "queryOf e req =
     \<lparr> q_ClusterName = qr_ClusterName req, q_Namespace = qr_Namespace req,
       q_ObjectKind = qr_ObjectKind req, q_ObjectName = qr_ObjectName req,
       q_Reason = qr_Reason req, q_Since = sinceOf (e_now e) (qr_SinceMinutes req),
       q_Limit = qr_Limit req, q_Intent = parseIntent (qr_Intent req) \<rparr>"

lemma makePlan_cluster: "makePlan q = Inr plan \<Longrightarrow> pl_ClusterName plan = q_ClusterName q \<and> q_ClusterName q \<noteq> ''''"
  by (auto simp: makePlan_def Let_def split: if_splits sum.splits)

lemma makePlan_steps: "makePlan q = Inr plan \<Longrightarrow> pl_Steps plan \<noteq> []"
  by (auto simp: makePlan_def Let_def heuristic_def explainObjectIssue_def steps_nonempty split: if_splits Intent.splits sum.splits)

lemma Build_warnings: "rs_Warnings (Build astime grng n mode t result) = er_StepErrors result"
  by (simp add: Build_def Let_def)

text \<open>The reply to a request that decodes, has a plan and reaches its cluster.\<close>

lemma handleQuery_executed:
  assumes "decodeQuery bdy = Inr req" "makePlan (queryOf e req) = Inr plan"
    and "Client (e_dial e) (qr_ClusterName req) rw = (Inr c, rw')"
    and "result = runSteps (e_tnew e) (e_astime e) (e_service e c) 0 (pl_Steps plan) emptyResult"
  shows "handleQuery e bdy rw =
    ((resultStatus result, QueryBody (Build (e_astime e) (e_grng e) (qr_ClusterName req) (parseMode (qr_Mode req))
        (correlate e (er_Events result)) result)), rw')"
proof -
  have "qr_ClusterName req \<noteq> ''''" "pl_ClusterName plan = qr_ClusterName req"
    using makePlan_cluster [OF assms(2)] by (simp_all add: queryOf_def)
  then show ?thesis
    using assms by (simp add: handleQuery_def Let_def Execute_def flip: queryOf_def)
qed

lemma handleQuery_frame: "same_registrations rw (snd (handleQuery e bdy rw))"
  by (auto simp: handleQuery_def Let_def split: sum.split prod.splits dest: Execute_frame)

lemma handleAsk_frame: "same_registrations rw (snd (handleAsk e quote rfc3339 g bdy rw))"
proof -
  have "same_registrations rw (snd (case makePlan q of
        Inl err \<Rightarrow> ((400, ErrorBody (''plan error: '' @ err)), rw)
      | Inr plan \<Rightarrow> (case Execute (e_tnew e) (e_astime e) (e_dial e) (e_service e) plan rw of
           (Inl err, rw') \<Rightarrow> ((502, ExecErrorBody ''execution error: '' err), rw')
         | (Inr result, rw') \<Rightarrow> (f result, rw'))))"
    for q and f :: "'a ExecutionResult \<Rightarrow> reply"
    by (auto split: sum.split prod.splits dest: Execute_frame)
  then show ?thesis
    unfolding handleAsk_def Let_def by (auto split: option.split sum.split simp del: split_paired_All)
qed

section \<open>An example deployment\<close>

definition envFor :: "(nat \<Rightarrow> (int \<times> int) agent_client) \<Rightarrow> (int \<times> int) env" where
  "envFor cl =
     \<lparr> e_tnew = unixNew, e_astime = unixAsTime, e_dial = (\<lambda>_. None), e_service = (\<lambda>_. cl),
       e_erng = sorted_list_of_set, e_grng = sorted_list_of_set, e_sortE = sort_key LastSeen,
       e_sortC = sort_key LastSeen, e_now = 1000000000000 \<rparr>"

definition agentClient :: "(int \<times> int) agent_client" where
  "agentClient = directClient unixNew unixAsTime sorted_list_of_set sorted_list_of_set exampleServer"

text \<open>An agent whose event listing fails while everything else works.\<close>

definition brokenListing :: "(int \<times> int) agent_client" where
  "brokenListing = agentClient \<lparr>cl_ListEvents := (\<lambda>_. Inl ''deadline exceeded'')\<rparr>"

definition exampleQuery :: QueryRequest where
  "exampleQuery = \<lparr> qr_ClusterName = ''a'', qr_Namespace = ''ns'', qr_ObjectKind = '''', qr_ObjectName = '''',
     qr_Reason = '''', qr_SinceMinutes = 0, qr_Limit = 0, qr_Intent = '''', qr_Mode = ''concise'' \<rparr>"

definition exampleQueryBody :: string where
  \<open>exampleQueryBody = ''{"cluster_name": "a", "namespace": "ns", "mode": "concise"}''\<close>

lemma exampleQueryBody_decodes: "decodeQuery exampleQueryBody = Inr exampleQuery"
  by code_simp

section \<open>Properties\<close>

text \<open>
  C26. Registrations can only be changed with the token: when one is configured, a request is
  let through exactly when its Authorization header is the token after the word Bearer, or the
  bare token; every other request to register or unregister is answered with 401 and changes
  nothing.
\<close>

theorem registry_mutation_guarded:
  "requireToken g auth =
     (gw_token g = '''' \<or> auth = ''Bearer '' @ gw_token g \<or> auth = gw_token g \<and> \<not> prefix ''Bearer '' auth)
   \<and> (\<not> requireToken g auth \<longrightarrow>
        handleRegister rng o' g auth bdy rw = (unauthorized, rw)
        \<and> handleUnregister rng o' g auth cluster rw = (unauthorized, rw))"
  by (auto simp: requireToken_def TrimPrefix_iff handleRegister_def handleUnregister_def)

theorem registry_mutation_guarded_witness:
  "\<not> requireToken \<lparr>gw_token = ''secret'', gw_llm = None\<rparr> ''Bearer wrong''
   \<and> handleUnregister sorted_list_of_set allOk \<lparr>gw_token = ''secret'', gw_llm = None\<rparr>
       ''Bearer wrong'' ''a'' exampleRegistry = (unauthorized, exampleRegistry)"
proof -
  have "\<not> requireToken \<lparr>gw_token = ''secret'', gw_llm = None\<rparr> ''Bearer wrong''" by code_simp
  then show ?thesis
    using registry_mutation_guarded [of "\<lparr>gw_token = ''secret'', gw_llm = None\<rparr>" "''Bearer wrong''"] by blast
qed

text \<open>
  Answering questions never changes the registrations: the entries and the files are the
  same after a query or a question, on every branch, and the connections stay consistent.
\<close>

theorem queries_keep_registrations:
  "(case handleQuery e bdy rw of (_, rw') \<Rightarrow>
      entries (fst rw') = entries (fst rw) \<and> files (snd rw') = files (snd rw) \<and> (reg_inv rw \<longrightarrow> reg_inv rw'))
   \<and> (case handleAsk e quote rfc3339 g bdy rw of (_, rw') \<Rightarrow>
      entries (fst rw') = entries (fst rw) \<and> files (snd rw') = files (snd rw) \<and> (reg_inv rw \<longrightarrow> reg_inv rw'))"
  using handleQuery_frame [of rw e bdy] handleAsk_frame [of rw e quote rfc3339 g bdy]
  by (simp add: same_registrations_def split_beta)

theorem queries_keep_registrations_witness:
  "reg_inv (snd (handleQuery (envFor (\<lambda>_. agentClient)) exampleQueryBody exampleRegistry))
   \<and> fst (fst (handleQuery (envFor (\<lambda>_. agentClient)) exampleQueryBody exampleRegistry)) = 200"
proof -
  have "reg_inv exampleRegistry" using exampleRegistry_inv by simp
  moreover have "fst (fst (handleQuery (envFor (\<lambda>_. agentClient)) exampleQueryBody exampleRegistry)) = 200"
    by code_simp
  ultimately show ?thesis
    using queries_keep_registrations [where e = "envFor (\<lambda>_. agentClient)" and bdy = exampleQueryBody and rw = exampleRegistry]
    by (auto simp: split_beta)
qed

text \<open>
  C27. The status of a query tells what happened: 400 exactly for a body that does not decode
  or a query that has no plan, 502 exactly when the plan's cluster has no client. Otherwise the
  status follows from what the steps of the plan return, each on its own: it is 207 when a step
  fails and no step that succeeds returns an event or a snapshot, and 200 in all other cases, and
  the response has one warning per failed step, in plan order, with the method and the error. In
  particular the status is 207 when all steps fail, since a plan is never empty.
\<close>

theorem query_status:
  "case handleQuery e bdy rw of ((status, reply), _) \<Rightarrow>
     (case decodeQuery bdy of
        Inl _ \<Rightarrow> status = 400
      | Inr req \<Rightarrow>
          (case makePlan (queryOf e req) of
             Inl _ \<Rightarrow> status = 400
           | Inr plan \<Rightarrow>
               (case fst (Client (e_dial e) (qr_ClusterName req) rw) of
                  Inl _ \<Rightarrow> status = 502
                | Inr c \<Rightarrow>
                    (let steps = pl_Steps plan; rs = outcomes (e_tnew e) (e_astime e) (e_service e c) steps
                     in rs \<noteq> []
                        \<and> status = (if list_ex isl rs \<and> list_all (yields_nothing er_Events) rs
                                       \<and> list_all (yields_nothing er_Snapshots) rs then 207 else 200)
                        \<and> (\<exists>resp. reply = QueryBody resp
                             \<and> rs_Warnings resp = concat (map2 (\<lambda>step r. case r of
                                   Inl err \<Rightarrow> [''step '' @ sp_Method step @ '' failed: '' @ err] | Inr _ \<Rightarrow> []) steps rs))))))"
proof (cases "decodeQuery bdy")
  case (Inl err)
  then show ?thesis by (simp add: handleQuery_def)
next
  case (Inr req)
  show ?thesis
  proof (cases "makePlan (queryOf e req)")
    case (Inl err)
    then show ?thesis using Inr by (simp add: handleQuery_def Let_def flip: queryOf_def)
  next
    case plan: (Inr plan)
    note cl = makePlan_cluster [OF plan]
    then have name: "qr_ClusterName req \<noteq> ''''" "pl_ClusterName plan = qr_ClusterName req"
      by (simp_all add: queryOf_def)
    obtain r rw' where client: "Client (e_dial e) (qr_ClusterName req) rw = (r, rw')"
      by (cases "Client (e_dial e) (qr_ClusterName req) rw")
    show ?thesis
    proof (cases r)
      case (Inl err)
      then show ?thesis
        using Inr plan name client by (simp add: handleQuery_def Let_def Execute_def flip: queryOf_def)
    next
      case c: (Inr c)
      let ?rs = "outcomes (e_tnew e) (e_astime e) (e_service e c) (pl_Steps plan)"
      let ?result = "runSteps (e_tnew e) (e_astime e) (e_service e c) 0 (pl_Steps plan) emptyResult"
      have rs: "?rs \<noteq> []"
        using makePlan_steps [OF plan] by (simp flip: length_greater_0_conv)
      have status: "resultStatus ?result =
          (if list_ex isl ?rs \<and> list_all (yields_nothing er_Events) ?rs \<and> list_all (yields_nothing er_Snapshots) ?rs
           then 207 else 200)"
        by (auto simp: resultStatus_def runSteps_outcomes(1,2) runSteps_failed)
      show ?thesis
        using handleQuery_executed [where bdy = bdy, OF Inr plan client [unfolded c] refl] Inr plan client c
        by (simp add: Let_def status rs Build_warnings runSteps_outcomes(3))
    qed
  qed
qed

text \<open>
  C39. A look-back window of up to 153722867 minutes (about 292 years) yields the instant that
  many minutes ago; one minute more overflows the 64-bit duration, and the lower bound then lies
  in the future, so that no event matches.
\<close>

theorem since_window:
  "(0 < sint m \<and> sint m \<le> 153722867 \<longrightarrow> sinceOf now m = now - sint m * Minute)
   \<and> (sint m \<le> 0 \<longrightarrow> sinceOf now m = zero_time)
   \<and> now < sinceOf now 153722868"
proof -
  have "sinceOf now m = now - sint m * Minute" if "0 < sint m" "sint m \<le> 153722867"
  proof -
    have "(- m) * of_int Minute = (of_int (- (sint m * Minute)) :: go_int)"
      by (simp add: Minute_def)
    moreover have "sint (of_int (- (sint m * Minute)) :: go_int) = - (sint m * Minute)"
      using that by (intro sint64_of_int) (simp_all add: Minute_def)
    ultimately show ?thesis using that by (simp add: sinceOf_def)
  qed
  moreover have "now < sinceOf now 153722868"
    by (simp add: sinceOf_def Minute_def)
  ultimately show ?thesis by (simp add: sinceOf_def)
qed

theorem since_window_witness:
  "sinceOf 10000000000000 60 = 10000000000000 - 60 * Minute \<and> sinceOf 5 0 = zero_time"
  using since_window [of 60 10000000000000] since_window [of 0 5] by simp

text \<open>
  The status 207 does not mean that all steps failed: when only the event listing of an
  overview fails, the namespace summary is collected and returned, with status 207.
\<close>

lemma multistatus_with_data:
  "\<exists>resp. fst (handleQuery (envFor (\<lambda>_. brokenListing)) exampleQueryBody exampleRegistry) = (207, QueryBody resp)
     \<and> rs_NamespaceSummary resp \<noteq> [] \<and> length (rs_Warnings resp) = 1"
proof -
  let ?r = "fst (handleQuery (envFor (\<lambda>_. brokenListing)) exampleQueryBody exampleRegistry)"
  have "case ?r of (st, QueryBody resp) \<Rightarrow> st = 207 \<and> rs_NamespaceSummary resp \<noteq> [] \<and> length (rs_Warnings resp) = 1
      | _ \<Rightarrow> False"
    by code_simp
  then show ?thesis by (auto split: prod.splits body.splits)
qed

text \<open>
  C28. A question is answered even when the model's reply is not the requested JSON: the
  coordinator then runs the namespace overview of the request's cluster and namespace, which
  always has a plan, and the reply is the same as for that query. A failed narration never
  fails the reply: the answer is the rule-based summary, which the technical mode leaves empty.
\<close>

theorem ask_fallback:
  assumes "gw_llm g = Some llm" "decodeAsk bdy = Inr req" "ar_ClusterName req \<noteq> ''''" "ar_Question req \<noteq> ''''"
    and "llm_Chat llm ExtractIntentSystem (ar_Question req) = Inr reply"
    and "unmarshalIntent (stripFences reply) = Inl err"
    and "handleAsk e quote rfc3339 g bdy rw = ((status, answer), rw')"
    and "q = \<lparr> q_ClusterName = ar_ClusterName req, q_Namespace = ar_Namespace req, q_ObjectKind = '''',
        q_ObjectName = '''', q_Reason = '''', q_Since = zero_time, q_Limit = 0, q_Intent = IntentNamespaceOverview \<rparr>"
  shows "case Client (e_dial e) (ar_ClusterName req) rw of
      (Inl ce, rw1) \<Rightarrow> status = 502 \<and> rw' = rw1
    | (Inr c, rw1) \<Rightarrow> rw' = rw1 \<and>
        (let result = runSteps (e_tnew e) (e_astime e) (e_service e c) 0 (namespaceOverview q) emptyResult;
             timeline = correlate e (er_Events result)
         in status = resultStatus result
            \<and> (\<exists>ask. answer = AskBody ask
                \<and> as_Response ask = Build (e_astime e) (e_grng e) (ar_ClusterName req) (parseMode (ar_Mode req)) timeline result
                \<and> (isl (llm_Summarize llm (SummarizeTimeline quote rfc3339 (ar_Question req) timeline)) \<longrightarrow>
                     as_Answer ask = (if ar_Mode req = ''concise'' \<or> ar_Mode req = ''incident-summary''
                       then summarise (e_grng e) timeline else ''''))))"
proof -
  have plan: "makePlan q = Inr \<lparr>pl_ClusterName = ar_ClusterName req, pl_Steps = namespaceOverview q\<rparr>"
    using assms(3,8) by (simp add: makePlan_def)
  have parse: "parseIntentJSON (e_now e) reply (ar_ClusterName req) (ar_Namespace req) = Inl err"
    using assms(6) by (simp add: parseIntentJSON_def)
  have summary: "rs_Summary (Build (e_astime e) (e_grng e) n (parseMode (ar_Mode req)) t res) =
      (if ar_Mode req = ''concise'' \<or> ar_Mode req = ''incident-summary'' then summarise (e_grng e) t else '''')"
    for n t and res :: "'a ExecutionResult"
    by (simp add: Build_def parseMode_def mode_defs Let_def)
  obtain r rw1 where client: "Client (e_dial e) (ar_ClusterName req) rw = (r, rw1)"
    by (cases "Client (e_dial e) (ar_ClusterName req) rw")
  have ask: "handleAsk e quote rfc3339 g bdy rw =
      (case Execute (e_tnew e) (e_astime e) (e_dial e) (e_service e)
            \<lparr>pl_ClusterName = ar_ClusterName req, pl_Steps = namespaceOverview q\<rparr> rw of
         (Inl err, rw') \<Rightarrow> ((502, ExecErrorBody ''execution error: '' err), rw')
       | (Inr result, rw') \<Rightarrow>
           let timeline = correlate e (er_Events result);
               mode = parseMode (ar_Mode req);
               structured = Build (e_astime e) (e_grng e) (ar_ClusterName req) mode timeline result;
               narrative = (case llm_Summarize llm (SummarizeTimeline quote rfc3339 (ar_Question req) timeline) of
                              Inr s \<Rightarrow> s | Inl err \<Rightarrow> rs_Summary structured)
           in ((resultStatus result, AskBody \<lparr>as_Response = structured, as_Answer = narrative\<rparr>), rw'))"
    using assms(1-6) plan parse by (simp add: handleAsk_def ExtractIntentUser_def Let_def flip: assms(8))
  show ?thesis
    using assms(7) client unfolding ask
    by (cases r) (auto simp: Execute_def Let_def summary split: sum.splits)
qed

definition chattyModel :: llm_Client where
  "chattyModel = \<lparr>llm_Summarize = (\<lambda>_. Inl (LlmFailed ''timeout'')), llm_Chat = (\<lambda>_ _. Inr ''I cannot answer that.'')\<rparr>"

definition exampleAsk :: AskRequest where
  "exampleAsk = \<lparr>ar_ClusterName = ''a'', ar_Question = ''why?'', ar_Namespace = ''ns'', ar_Mode = ''''\<rparr>"

definition exampleAskBody :: string where
  \<open>exampleAskBody = ''{"cluster":"a","question":"why?","namespace":"ns"}''\<close>

theorem ask_fallback_witness:
  "\<exists>ask rw'. handleAsk (envFor (\<lambda>_. agentClient)) (\<lambda>s. s) (\<lambda>_. '''')
      \<lparr>gw_token = '''', gw_llm = Some chattyModel\<rparr> exampleAskBody exampleRegistry = ((200, AskBody ask), rw')
    \<and> rs_Timeline (as_Response ask) \<noteq> [] \<and> as_Answer ask = ''''"
proof -
  let ?g = "\<lparr>gw_token = '''', gw_llm = Some chattyModel\<rparr>" and ?e = "envFor (\<lambda>_. agentClient)"
  let ?h = "handleAsk ?e (\<lambda>s. s) (\<lambda>_. '''') ?g exampleAskBody exampleRegistry"
  have hyps: "ar_ClusterName exampleAsk \<noteq> ''''" "ar_Question exampleAsk \<noteq> ''''"
    "llm_Chat chattyModel ExtractIntentSystem (ar_Question exampleAsk) = Inr ''I cannot answer that.''"
    by (simp_all add: exampleAsk_def chattyModel_def)
  have bodies: "decodeAsk exampleAskBody = Inr exampleAsk"
    "unmarshalIntent (stripFences ''I cannot answer that.'') = Inl SyntaxError" by code_simp+
  have client: "Client (e_dial ?e) (ar_ClusterName exampleAsk) exampleRegistry =
      (Inr 1, fst exampleRegistry, snd exampleRegistry)" by code_simp
  have code: "case ?h of ((st, AskBody ask), _) \<Rightarrow> st = 200 \<and> rs_Timeline (as_Response ask) \<noteq> [] | _ \<Rightarrow> False"
    by code_simp
  obtain st ans rw' where h: "?h = ((st, ans), rw')" by (cases ?h) auto
  have "gw_llm ?g = Some chattyModel" by simp
  note fb = ask_fallback [OF this bodies(1) hyps bodies(2) h refl]
  have "isl (llm_Summarize chattyModel p)" for p by (simp add: chattyModel_def)
  then obtain ask where "ans = AskBody ask" "as_Answer ask = ''''"
    using fb unfolding client by (auto simp: Let_def exampleAsk_def)
  then show ?thesis using code h by auto
qed

text \<open>The query request that a question stands for once the model has named an intent.\<close>

definition askedQuery :: "AskRequest \<Rightarrow> intentPayload \<Rightarrow> QueryRequest" where
  "askedQuery req p =
     \<lparr> qr_ClusterName = ar_ClusterName req,
       qr_Namespace = (if ip_Namespace p = '''' then ar_Namespace req else ip_Namespace p),
       qr_ObjectKind = ip_ObjectKind p, qr_ObjectName = ip_ObjectName p, qr_Reason = ip_Reason p,
       qr_SinceMinutes = ip_SinceMinutes p, qr_Limit = 0, qr_Intent = ip_Intent p, qr_Mode = ar_Mode req \<rparr>"

lemma parseIntentJSON_asked:
  "unmarshalIntent (stripFences reply) = Inr p \<Longrightarrow>
     parseIntentJSON (e_now e) reply (ar_ClusterName req) (ar_Namespace req) = Inr (queryOf e (askedQuery req p))"
  by (simp add: parseIntentJSON_def askedQuery_def queryOf_def Let_def)

text \<open>
  C30. A question is a query: when the model's reply holds the requested JSON, in code fences or
  not, the handler answers with the status, the structured response and the effects of the query
  that names the extracted intent, with the namespace of the request when the model names none.
  Failed plans and failed executions give the very reply of the query, and a successful one adds
  the narration, or the rule-based summary when the model cannot narrate.
\<close>

theorem ask_equals_query:
  assumes "gw_llm g = Some llm" "decodeAsk bdy = Inr req" "ar_ClusterName req \<noteq> ''''" "ar_Question req \<noteq> ''''"
    and "llm_Chat llm ExtractIntentSystem (ar_Question req) = Inr reply"
    and "unmarshalIntent (stripFences reply) = Inr p"
    and "decodeQuery qbdy = Inr (askedQuery req p)"
  shows "case handleQuery e qbdy rw of ((status, b), rw') \<Rightarrow>
      (case b of
         QueryBody resp \<Rightarrow>
           \<exists>result. let t = correlate e (er_Events result) in
             resp = Build (e_astime e) (e_grng e) (ar_ClusterName req) (parseMode (ar_Mode req)) t result
             \<and> handleAsk e quote rfc3339 g bdy rw =
                 ((status, AskBody \<lparr>as_Response = resp, as_Answer =
                    (case llm_Summarize llm (SummarizeTimeline quote rfc3339 (ar_Question req) t) of
                       Inr s \<Rightarrow> s | Inl err \<Rightarrow> rs_Summary resp)\<rparr>), rw')
       | _ \<Rightarrow> handleAsk e quote rfc3339 g bdy rw = ((status, b), rw'))"
proof -
  have fields: "qr_ClusterName (askedQuery req p) = ar_ClusterName req" "qr_Mode (askedQuery req p) = ar_Mode req"
    by (simp_all add: askedQuery_def)
  define q where "q = queryOf e (askedQuery req p)"
  have query: "handleQuery e qbdy rw =
      (case makePlan q of
         Inl err \<Rightarrow> ((400, ErrorBody (''plan error: '' @ err)), rw)
       | Inr plan \<Rightarrow>
           (case Execute (e_tnew e) (e_astime e) (e_dial e) (e_service e) plan rw of
              (Inl err, rw') \<Rightarrow> ((502, ExecErrorBody ''execution error: '' err), rw')
            | (Inr result, rw') \<Rightarrow>
                ((resultStatus result, QueryBody (Build (e_astime e) (e_grng e) (ar_ClusterName req)
                    (parseMode (ar_Mode req)) (correlate e (er_Events result)) result)), rw')))"
    using assms(3) unfolding handleQuery_def assms(7) sum.case Let_def q_def queryOf_def fields by simp
  show ?thesis
    using assms(1-5) parseIntentJSON_asked [OF assms(6), of e req] unfolding query
    by (auto simp: handleAsk_def ExtractIntentUser_def Let_def split: sum.split prod.split simp flip: q_def)
qed

definition orderlyModel :: llm_Client where
  \<open>orderlyModel = \<lparr>llm_Summarize = (\<lambda>_. Inr ''all is well''),
     llm_Chat = (\<lambda>_ _. Inr (''```json'' @ [CHR 0x0A] @ ''{"intent":"NamespaceOverview"}'' @ [CHR 0x0A] @ ''```''))\<rparr>\<close>

definition overviewQueryBody :: string where
  \<open>overviewQueryBody = ''{"cluster_name":"a","namespace":"ns","intent":"NamespaceOverview"}''\<close>

theorem ask_equals_query_witness:
  "\<exists>resp rw'. handleQuery (envFor (\<lambda>_. agentClient)) overviewQueryBody exampleRegistry = ((200, QueryBody resp), rw')
    \<and> rs_Timeline resp \<noteq> []
    \<and> handleAsk (envFor (\<lambda>_. agentClient)) (\<lambda>s. s) (\<lambda>_. '''') \<lparr>gw_token = '''', gw_llm = Some orderlyModel\<rparr>
        exampleAskBody exampleRegistry
      = ((200, AskBody \<lparr>as_Response = resp, as_Answer = ''all is well''\<rparr>), rw')"
proof -
  let ?g = "\<lparr>gw_token = '''', gw_llm = Some orderlyModel\<rparr>" and ?e = "envFor (\<lambda>_. agentClient)"
  let ?q = "handleQuery ?e overviewQueryBody exampleRegistry"
  let ?p = "\<lparr>ip_Namespace = '''', ip_ObjectKind = '''', ip_ObjectName = '''', ip_Reason = '''',
    ip_SinceMinutes = 0, ip_Intent = ''NamespaceOverview''\<rparr>"
  let ?reply = \<open>''```json'' @ [CHR 0x0A] @ ''{"intent":"NamespaceOverview"}'' @ [CHR 0x0A] @ ''```''\<close>
  have hyps: "ar_ClusterName exampleAsk \<noteq> ''''" "ar_Question exampleAsk \<noteq> ''''"
    "llm_Chat orderlyModel ExtractIntentSystem (ar_Question exampleAsk) = Inr ?reply"
    by (simp_all add: exampleAsk_def orderlyModel_def)
  have bodies: "decodeAsk exampleAskBody = Inr exampleAsk" "unmarshalIntent (stripFences ?reply) = Inr ?p"
    "decodeQuery overviewQueryBody = Inr (askedQuery exampleAsk ?p)" by code_simp+
  have code: "case ?q of ((st, QueryBody resp), _) \<Rightarrow> st = 200 \<and> rs_Timeline resp \<noteq> [] | _ \<Rightarrow> False"
    by code_simp
  obtain st b rw' where q: "?q = ((st, b), rw')" by (cases ?q) auto
  have "gw_llm ?g = Some orderlyModel" by simp
  note eq = ask_equals_query [OF this bodies(1) hyps bodies(2,3)]
  show ?thesis
    using eq [where e = ?e and rw = exampleRegistry and quote = "\<lambda>s. s" and ?rfc3339.0 = "\<lambda>_. ''''"] code unfolding q
    by (cases b) (auto simp: Let_def orderlyModel_def)
qed

text \<open>Code fences around a JSON object, with white space anywhere outside it.\<close>

lemma TrimSuffix_append [simp]: "TrimSuffix (s @ p) p = s"
  by (simp add: TrimSuffix_def suffix_def)

lemma TrimPrefix_append [simp]: "TrimPrefix (p @ s) p = s"
  by (simp add: TrimPrefix_def)

lemma TrimPrefix_other: "\<not> prefix p s \<Longrightarrow> TrimPrefix s p = s"
  by (simp add: TrimPrefix_def)

lemma object_no_fence:
  assumes "list_all blank_char b"
  shows "\<not> prefix (CHR ''`'' # p) (b @ CHR ''{'' # r)"
  using assms by (cases b) (auto simp: blank_char_def)

lemma fenced_trim:
  assumes "list_all blank_char a" "list_all blank_char d" "fence = ''```json'' \<or> fence = ''```''"
  shows "TrimSpace (a @ (fence @ x @ ''```'') @ d) = fence @ x @ ''```''"
  using assms by (intro TrimSpace_solid) (auto simp: solid_def ascii_def blank_char_def)

lemma object_solid: "solid (CHR ''{'' # m @ ''}'')"
  by (simp add: solid_def ascii_def blank_char_def)

text \<open>
  C32. Code fences do not matter: a JSON object is handed to the decoder as it is when the
  model wraps it in a fence, with or without the language name, and in any white space, and
  also when it has no fence.
\<close>

theorem stripFences_object:
  assumes "list_all blank_char a" "list_all blank_char b" "list_all blank_char c" "list_all blank_char d"
    and "obj = ''{'' @ m @ ''}''"
  shows "stripFences (a @ ''```json'' @ b @ obj @ c @ ''```'' @ d) = obj
    \<and> stripFences (a @ ''```'' @ b @ obj @ c @ ''```'' @ d) = obj
    \<and> stripFences (a @ obj @ d) = obj"
proof -
  have solid: "TrimSpace (x @ obj @ y) = obj" if "list_all blank_char x" "list_all blank_char y" for x y
    using TrimSpace_solid [OF object_solid that] by (simp add: assms(5))
  have nofence: "TrimPrefix (x @ obj @ y) (CHR ''`'' # p) = x @ obj @ y" if "list_all blank_char x" for x y p
    using object_no_fence [OF that] by (intro TrimPrefix_other) (simp add: assms(5))
  have "\<not> prefix ''```json'' (''```'' @ b @ obj @ c @ ''```'')"
    using assms(2) by (cases b) (auto simp: assms(5) blank_char_def)
  then have "TrimPrefix (''```'' @ b @ obj @ c @ ''```'') ''```json'' = ''```'' @ b @ obj @ c @ ''```''"
    by (rule TrimPrefix_other)
  moreover have "TrimSuffix obj ''```'' = obj"
    by (auto simp: TrimSuffix_def assms(5) suffix_def append_eq_append_conv2 Cons_eq_append_conv)
  ultimately show ?thesis
    using fenced_trim [OF assms(1,4), of "''```json''" "b @ obj @ c"]
      fenced_trim [OF assms(1,4), of "''```''" "b @ obj @ c"]
      nofence [OF assms(2), of "c @ ''```''"] nofence [of "[]" "[]"] solid [OF assms(1,4)]
      solid [OF assms(2,3)] solid [of "[]" "[]"] TrimSuffix_append [of "b @ obj @ c" "''```''"]
      TrimPrefix_append [of "''```json''"] TrimPrefix_append [of "''```''"]
    unfolding stripFences_def Let_def by simp
qed

theorem stripFences_object_witness:
  "stripFences (''\<newline>'' @ ''```json'' @ ''\<newline>'' @ (''{'' @ ''x'' @ ''}'') @ ''\<newline>'' @ ''```'' @ '' '') = ''{x}''"
  using stripFences_object [of "''\<newline>''" "''\<newline>''" "''\<newline>''" "'' ''", OF _ _ _ _ refl, of "''x''"]
  by (simp add: blank_char_def)

end
