(* ===== verification/Reply.thy ===== *)
theory Reply
  imports Gateway
begin

text \<open>
  The bytes of a reply: \<^verbatim>\<open>writeJSON\<close> and \<^verbatim>\<open>writeError\<close> of
  \<^verbatim>\<open>internal/app/coordinator/gateway.go\<close>, and the JSON tags of the reply types of
  \<^verbatim>\<open>response.go\<close>.

  The encoder fails on an instant whose year does not have four digits, and then writes nothing;
  an encoding is therefore an option. The layout of instants (\<open>nano\<close>), the quoting verb
  \<^verbatim>\<open>%q\<close> (\<open>quote\<close>) and the texts of the decoder's errors (\<open>jsonErr\<close>) are arguments.
\<close>

section \<open>Encoding of the line types\<close>

definition Day :: int where
  "Day = 86400000000000"

text \<open>Years 0 to 9999: from 366 days before the zero time to 3652059 days after it.\<close>

definition encodeTime :: "(time \<Rightarrow> string) \<Rightarrow> time \<Rightarrow> json option" where
  "encodeTime nano t = (if - (366 * Day) \<le> t \<and> t < 3652059 * Day then Some (JStr (nano t)) else None)"

definition int32JSON :: "int32 \<Rightarrow> json" where
  "int32JSON n = JNum (Itoa (sint n))"

definition int64JSON :: "go_int \<Rightarrow> json" where
  "int64JSON n = JNum (Itoa (sint n))"

text \<open>A member with the option \<^verbatim>\<open>omitempty\<close>, and a slice, whose nil value is \<^verbatim>\<open>null\<close>.\<close>

definition omitEmpty :: "bool \<Rightarrow> string \<Rightarrow> json \<Rightarrow> (string \<times> json) list" where
  "omitEmpty isEmpty k v = (if isEmpty then [] else [(k, v)])"

definition omitString :: "string \<Rightarrow> string \<Rightarrow> (string \<times> json) list" where
  "omitString k s = omitEmpty (s = '''') k (JStr s)"

definition sliceJSON :: "bool \<Rightarrow> json list \<Rightarrow> json" where
  "sliceJSON isNil vs = (if isNil then JNull else JArr vs)"

definition encodeNamespaceSummaryLine :: "(time \<Rightarrow> string) \<Rightarrow> NamespaceSummaryLine \<Rightarrow> json option" where
  "encodeNamespaceSummaryLine nano l =
     map_option (\<lambda>t. JObj [(''reason'', JStr (nsl_Reason l)), (''total_count'', int32JSON (nsl_TotalCount l)),
        (''objects'', sliceJSON (nsl_Objects l = []) (map JStr (nsl_Objects l))), (''last_seen'', t)])
       (encodeTime nano (nsl_LastSeen l))"

definition encodeContainerStatusLine :: "ContainerStatusLine \<Rightarrow> json" where
  "encodeContainerStatusLine l =
     JObj ([(''name'', JStr (csl_Name l)), (''ready'', JBool (csl_Ready l)),
            (''restart_count'', int32JSON (csl_RestartCount l)), (''state'', JStr (csl_State l))]
       @ omitString ''reason'' (csl_Reason l)
       @ omitEmpty (csl_LastTerminationExitCode l = 0) ''last_termination_exit_code'' (int32JSON (csl_LastTerminationExitCode l))
       @ omitString ''last_termination_reason'' (csl_LastTerminationReason l)
       @ omitString ''last_termination_message'' (csl_LastTerminationMessage l))"

definition encodeWorkloadConditionLine :: "WorkloadConditionLine \<Rightarrow> json" where
  "encodeWorkloadConditionLine l =
     JObj ([(''type'', JStr (wcl_Type l)), (''status'', JStr (wcl_Status l))]
       @ omitString ''reason'' (wcl_Reason l) @ omitString ''message'' (wcl_Message l))"

definition encodeSnapshotLine :: "SnapshotLine \<Rightarrow> json" where
  "encodeSnapshotLine l =
     JObj ([(''kind'', JStr (sl_Kind l)), (''name'', JStr (sl_Name l)), (''namespace'', JStr (sl_Namespace l))]
       @ omitString ''phase'' (sl_Phase l)
       @ omitEmpty (sl_ContainerStatuses l = []) ''container_statuses''
           (JArr (map encodeContainerStatusLine (sl_ContainerStatuses l)))
       @ omitEmpty (sl_WorkloadConditions l = []) ''workload_conditions''
           (JArr (map encodeWorkloadConditionLine (sl_WorkloadConditions l))))"

definition encodeContainerLogLine :: "ContainerLogLine \<Rightarrow> json" where
  "encodeContainerLogLine l =
     JObj [(''pod'', JStr (cll_Pod l)), (''container'', JStr (cll_Container l)), (''logs'', JStr (cll_Logs l))]"

definition encodeContainerMetricsLine :: "ContainerMetricsLine \<Rightarrow> json" where
  "encodeContainerMetricsLine l =
     JObj [(''name'', JStr (cml_Name l)), (''cpu_millicores'', int64JSON (cml_CPUMillicores l)),
           (''memory_bytes'', int64JSON (cml_MemoryBytes l))]"

definition encodePodMetricsLine :: "(time \<Rightarrow> string) \<Rightarrow> PodMetricsLine \<Rightarrow> json option" where
  "encodePodMetricsLine nano l =
     map_option (\<lambda>t. JObj [(''namespace'', JStr (pml_Namespace l)), (''pod'', JStr (pml_Pod l)),
        (''containers'', sliceJSON (pml_Containers l = []) (map encodeContainerMetricsLine (pml_Containers l))),
        (''timestamp'', t)])
       (encodeTime nano (pml_Timestamp l))"

definition encodeEventLine :: "(time \<Rightarrow> string) \<Rightarrow> EventLine \<Rightarrow> json option" where
  "encodeEventLine nano l =
     map_option (\<lambda>t. JObj ([(''time'', t), (''namespace'', JStr (el_Namespace l)), (''object'', JStr (el_Object l)),
        (''reason'', JStr (el_Reason l)), (''message'', JStr (el_Message l)), (''count'', int32JSON (el_Count l))]
        @ omitEmpty (\<not> el_IsRootCause l) ''is_root_cause'' (JBool (el_IsRootCause l))
        @ omitString ''caused_by'' (el_CausedBy l) @ omitString ''group_id'' (el_GroupID l)))
       (encodeTime nano (el_Time l))"

text \<open>
  The members of a response. Its timeline is nil exactly in the concise mode, which does not set
  it; the root causes are never nil.
\<close>

definition encodeResponse :: "(time \<Rightarrow> string) \<Rightarrow> Response \<Rightarrow> (string \<times> json) list option" where
  "encodeResponse nano r =
     (case (those (map (encodeNamespaceSummaryLine nano) (rs_NamespaceSummary r)),
            those (map (encodeEventLine nano) (rs_Timeline r)),
            those (map (encodeEventLine nano) (rs_RootCauses r)),
            those (map (encodePodMetricsLine nano) (rs_PodMetrics r))) of
        (Some summaries, Some timeline, Some rootCauses, Some metrics) \<Rightarrow>
          Some ([(''cluster'', JStr (rs_ClusterName r)), (''mode'', JStr (rs_Mode r))]
            @ omitEmpty (summaries = []) ''namespace_summary'' (JArr summaries)
            @ [(''timeline'', sliceJSON (rs_Mode r = ResponseModeConcise) timeline), (''root_causes'', JArr rootCauses)]
            @ omitEmpty (rs_AffectedObjects r = []) ''affected_objects'' (JArr (map JStr (rs_AffectedObjects r)))
            @ omitEmpty (rs_Snapshots r = []) ''snapshots'' (JArr (map encodeSnapshotLine (rs_Snapshots r)))
            @ omitEmpty (rs_ContainerLogs r = []) ''container_logs'' (JArr (map encodeContainerLogLine (rs_ContainerLogs r)))
            @ omitEmpty (metrics = []) ''pod_metrics'' (JArr metrics)
            @ omitString ''summary'' (rs_Summary r)
            @ omitEmpty (rs_Warnings r = []) ''warnings'' (JArr (map JStr (rs_Warnings r))))
      | _ \<Rightarrow> None)"

definition encodeAskResponse :: "(time \<Rightarrow> string) \<Rightarrow> AskResponse \<Rightarrow> (string \<times> json) list option" where
  "encodeAskResponse nano a =
     map_option (\<lambda>ms. ms @ omitString ''answer'' (as_Answer a)) (encodeResponse nano (as_Response a))"

section \<open>Error texts\<close>

fun clientErrorText :: "(string \<Rightarrow> string) \<Rightarrow> client_error \<Rightarrow> string" where
  "clientErrorText quote (NotRegistered n) = ''cluster '' @ quote n @ '' not registered''"
| "clientErrorText quote (DialFailed ep err) = ''dial '' @ ep @ '': '' @ err"

fun execErrorText :: "(string \<Rightarrow> string) \<Rightarrow> exec_error \<Rightarrow> string" where
  "execErrorText quote (GetClientFailed n err) = ''get client for '' @ quote n @ '': '' @ clientErrorText quote err"

fun llmErrorText :: "(json_error \<Rightarrow> string) \<Rightarrow> llm_error \<Rightarrow> string" where
  "llmErrorText jsonErr (LlmFailed err) = err"
| "llmErrorText jsonErr (LlmDecode pre err) = pre @ jsonErr err"

definition errorJSON :: "string \<Rightarrow> json" where
  "errorJSON msg = JObj [(''error'', JStr msg)]"

section \<open>Replies\<close>

fun encodeBody :: "(time \<Rightarrow> string) \<Rightarrow> (string \<Rightarrow> string) \<Rightarrow> (json_error \<Rightarrow> string) \<Rightarrow> body \<Rightarrow> json option" where
  "encodeBody nano quote jsonErr (ErrorBody msg) = Some (errorJSON msg)"
| "encodeBody nano quote jsonErr (DecodeErrorBody pre err) = Some (errorJSON (pre @ jsonErr err))"
| "encodeBody nano quote jsonErr (LlmErrorBody pre err) = Some (errorJSON (pre @ llmErrorText jsonErr err))"
| "encodeBody nano quote jsonErr (ExecErrorBody pre err) = Some (errorJSON (pre @ execErrorText quote err))"
| "encodeBody nano quote jsonErr (StatusBody s) = Some (JObj [(''status'', JStr s)])"
| "encodeBody nano quote jsonErr (QueryBody r) = map_option JObj (encodeResponse nano r)"
| "encodeBody nano quote jsonErr (AskBody a) = map_option JObj (encodeAskResponse nano a)"
| "encodeBody nano quote jsonErr (ListBody es) = Some (JArr (map encodeEntry es))"
| "encodeBody nano quote jsonErr (TextBody s) = None"

text \<open>
  The status and the bytes on the wire. The error of the encoder is ignored: the status has been
  written before, and the body stays empty.
\<close>

definition writeJSON ::
  "(time \<Rightarrow> string) \<Rightarrow> (string \<Rightarrow> string) \<Rightarrow> (json_error \<Rightarrow> string) \<Rightarrow> reply \<Rightarrow> nat \<times> string" where
  "writeJSON nano quote jsonErr r =
     (case r of (code, b) \<Rightarrow>
        (code, case b of
           TextBody s \<Rightarrow> s
         | _ \<Rightarrow> (case encodeBody nano quote jsonErr b of Some v \<Rightarrow> Marshal v @ [CHR 0x0A] | None \<Rightarrow> '''')))"

section \<open>The text of a reply\<close>

text \<open>The decimal text of an integer is a number literal.\<close>

lemma numRun_digits: "list_all isDigit ds \<Longrightarrow> numRun Digits ds = Some Digits"
  by (induction ds) simp_all

lemma natDigits_hd: "0 < n \<Longrightarrow> hd (natDigits n) \<noteq> CHR ''0''"
proof (induction n rule: natDigits.induct)
  case (1 n)
  show ?case
  proof (cases "n < 10")
    case True
    then have "(of_char (char_of (48 + n) :: char) :: nat) = 48 + n" by (rule char_digit)
    moreover have "(of_char (CHR ''0'') :: nat) = 48" by simp
    ultimately have "char_of (48 + n) \<noteq> CHR ''0''" using "1.prems" by (metis add_cancel_right_right less_irrefl)
    then show ?thesis using True by (subst natDigits.simps) simp
  next
    case False
    then have "hd (natDigits (n div 10)) \<noteq> CHR ''0''" using "1.IH" by simp
    then show ?thesis using False natDigits_ok [of "n div 10"] by (subst natDigits.simps) simp
  qed
qed

lemma numLit_natDigits: "numLit (natDigits n)" "numLit (CHR ''-'' # natDigits (Suc n))"
proof -
  have digits: "\<exists>c cs. natDigits n = c # cs \<and> isDigit c \<and> list_all isDigit cs" for n
    using natDigits_ok [of n] by (cases "natDigits n") auto
  have minus: "\<not> isDigit (CHR ''-'')" by (simp add: isDigit_def)
  show "numLit (natDigits n)"
  proof (cases "n = 0")
    case True
    then show ?thesis by (subst True, subst natDigits.simps) (simp add: numLit_def numFinal_def isDigit_def char_of_def bit_0)
  next
    case False
    obtain c cs where c: "natDigits n = c # cs" "isDigit c" "list_all isDigit cs" using digits by blast
    then have "c \<noteq> CHR ''0''" using natDigits_hd [of n] False by simp
    moreover have "c \<noteq> CHR ''-''" using c(2) minus by blast
    ultimately show ?thesis using c by (simp add: numLit_def numRun_digits numFinal_def)
  qed
  obtain c cs where c: "natDigits (Suc n) = c # cs" "isDigit c" "list_all isDigit cs" using digits by blast
  moreover have "c \<noteq> CHR ''0''" using natDigits_hd [of "Suc n"] c(1) by simp
  ultimately show "numLit (CHR ''-'' # natDigits (Suc n))" by (simp add: numLit_def numRun_digits numFinal_def)
qed

lemma numLit_Itoa: "numLit (Itoa n)"
proof (cases "n < 0")
  case True
  then obtain k where "nat (- n) = Suc k" by (metis gr0_conv_Suc neg_0_less_iff_less zero_less_nat_eq)
  then show ?thesis using True numLit_natDigits(2) [of k] by (simp add: Itoa_def)
qed (simp add: Itoa_def numLit_natDigits(1))

text \<open>The values that are encoded: their numbers are literals and they are not deep.\<close>

definition shallow :: "nat \<Rightarrow> json \<Rightarrow> bool" where
  "shallow n v \<longleftrightarrow> numsOk v \<and> height v \<le> n"

lemma shallow_leaf [simp, intro]:
  "shallow n (JStr s)" "shallow n (JBool b)" "shallow n JNull" "shallow n (int32JSON i)" "shallow n (int64JSON j)"
  by (simp_all add: shallow_def int32JSON_def int64JSON_def numLit_Itoa)

lemma shallow_JArr [intro]: "(\<And>v. v \<in> set vs \<Longrightarrow> shallow n v) \<Longrightarrow> shallow (Suc n) (JArr vs)"
  by (auto simp: shallow_def list_all_iff fold_max_le)

lemma shallow_JObj [intro]: "(\<And>kv. kv \<in> set kvs \<Longrightarrow> shallow n (snd kv)) \<Longrightarrow> shallow (Suc n) (JObj kvs)"
  by (auto simp: shallow_def list_all_iff fold_max_le)

lemma shallow_sliceJSON [intro]: "(\<And>v. v \<in> set vs \<Longrightarrow> shallow n v) \<Longrightarrow> shallow (Suc n) (sliceJSON nil vs)"
  by (auto simp: sliceJSON_def)

lemma set_omit [simp]:
  "kv \<in> set (omitEmpty b k v) \<longleftrightarrow> \<not> b \<and> kv = (k, v)" "kv \<in> set (omitString k s) \<longleftrightarrow> s \<noteq> '''' \<and> kv = (k, JStr s)"
  by (auto simp: omitEmpty_def omitString_def)

lemma those_mem: "those xs = Some ys \<Longrightarrow> y \<in> set ys \<Longrightarrow> Some y \<in> set xs"
  by (induction xs arbitrary: ys) (auto split: option.splits)

lemma encodeTime_Some: "encodeTime nano t = Some v \<longleftrightarrow> v = JStr (nano t) \<and> - (366 * Day) \<le> t \<and> t < 3652059 * Day"
  by (auto simp: encodeTime_def)

lemma shallow_mono: "shallow m v \<Longrightarrow> m \<le> n \<Longrightarrow> shallow n v"
  by (simp add: shallow_def)

lemma those_shallow:
  assumes "those (map f xs) = Some ys" "\<And>x v. f x = Some v \<Longrightarrow> shallow m v" "m \<le> n" "y \<in> set ys"
  shows "shallow n y"
proof -
  obtain x where "f x = Some y" using those_mem [OF assms(1,4)] by auto
  then show ?thesis using assms(2,3) shallow_mono by blast
qed

lemma encode_lines_shallow:
  "encodeNamespaceSummaryLine nano l1 = Some v \<Longrightarrow> shallow 2 v"
  "shallow 1 (encodeContainerStatusLine l2)" "shallow 1 (encodeWorkloadConditionLine l3)"
  "shallow 3 (encodeSnapshotLine l4)" "shallow 1 (encodeContainerLogLine l5)" "shallow 1 (encodeContainerMetricsLine l6)"
  "encodePodMetricsLine nano l7 = Some v \<Longrightarrow> shallow 3 v" "encodeEventLine nano l8 = Some v \<Longrightarrow> shallow 1 v"
proof -
  note numeral = numeral_2_eq_2 numeral_3_eq_3 One_nat_def
  show "encodeNamespaceSummaryLine nano l1 = Some v \<Longrightarrow> shallow 2 v"
    unfolding encodeNamespaceSummaryLine_def numeral by (auto simp: encodeTime_Some intro!: shallow_JObj shallow_sliceJSON)
  show status: "shallow 1 (encodeContainerStatusLine l)" for l
    unfolding encodeContainerStatusLine_def numeral by (rule shallow_JObj) auto
  show condition: "shallow 1 (encodeWorkloadConditionLine l)" for l
    unfolding encodeWorkloadConditionLine_def numeral by (rule shallow_JObj) auto
  show "shallow 3 (encodeSnapshotLine l4)"
    using status condition unfolding encodeSnapshotLine_def numeral
    by (intro shallow_JObj) (auto intro!: shallow_JArr)
  show "shallow 1 (encodeContainerLogLine l5)"
    unfolding encodeContainerLogLine_def numeral by (rule shallow_JObj) auto
  show metrics: "shallow 1 (encodeContainerMetricsLine l)" for l
    unfolding encodeContainerMetricsLine_def numeral by (rule shallow_JObj) auto
  show "encodePodMetricsLine nano l7 = Some v \<Longrightarrow> shallow 3 v"
    using metrics unfolding encodePodMetricsLine_def numeral
    by (auto simp: encodeTime_Some intro!: shallow_JObj shallow_sliceJSON)
  show "encodeEventLine nano l8 = Some v \<Longrightarrow> shallow 1 v"
    unfolding encodeEventLine_def numeral by (auto simp: encodeTime_Some intro!: shallow_JObj)
qed

lemma encodeResponse_shallow:
  assumes "encodeResponse nano r = Some ms" "kv \<in> set ms"
  shows "shallow 4 (snd kv)"
proof -
  obtain ns tl rc pm where parts:
    "those (map (encodeNamespaceSummaryLine nano) (rs_NamespaceSummary r)) = Some ns"
    "those (map (encodeEventLine nano) (rs_Timeline r)) = Some tl"
    "those (map (encodeEventLine nano) (rs_RootCauses r)) = Some rc"
    "those (map (encodePodMetricsLine nano) (rs_PodMetrics r)) = Some pm"
    using assms(1) by (auto simp: encodeResponse_def split: option.splits)
  have lines: "v \<in> set ns \<Longrightarrow> shallow 3 v" "v \<in> set tl \<Longrightarrow> shallow 3 v" "v \<in> set rc \<Longrightarrow> shallow 3 v"
    "v \<in> set pm \<Longrightarrow> shallow 3 v" for v
    using those_shallow [where n = 3 and m = 2, OF parts(1)] those_shallow [where n = 3 and m = 1, OF parts(2)]
      those_shallow [where n = 3 and m = 1, OF parts(3)] those_shallow [where n = 3 and m = 3, OF parts(4)]
      encode_lines_shallow(1,7,8) by simp_all
  have arr: "shallow 4 (JArr vs)" "shallow 4 (sliceJSON b vs)" if "\<And>v. v \<in> set vs \<Longrightarrow> shallow 3 v" for b vs
    using shallow_JArr [of vs 3] shallow_sliceJSON [of vs 3 b] that by simp_all
  have "shallow 4 (JArr ns)" "shallow 4 (sliceJSON b tl)" "shallow 4 (JArr rc)" "shallow 4 (JArr pm)"
    "shallow 4 (JArr (map JStr xs))" "shallow 4 (JArr (map encodeSnapshotLine (rs_Snapshots r)))"
    "shallow 4 (JArr (map encodeContainerLogLine (rs_ContainerLogs r)))" for b xs
    using lines encode_lines_shallow(4) shallow_mono [OF encode_lines_shallow(5), of 3] by (auto intro!: arr)
  then show ?thesis using assms parts by (auto simp: encodeResponse_def)
qed

lemma encodeBody_shallow:
  assumes "encodeBody nano quote jsonErr b = Some v"
  shows "shallow 5 v \<and> (\<exists>kvs. v = JObj kvs) \<or> shallow 5 v \<and> (\<exists>vs. v = JArr vs)"
proof -
  have five: "(5 :: nat) = Suc 4" by simp
  have entries: "shallow 4 (encodeEntry e)" for e using encodeEntry_shape [of e] by (simp add: shallow_def)
  have obj: "shallow 5 (JObj ms)" if "\<And>kv. kv \<in> set ms \<Longrightarrow> shallow 4 (snd kv)" for ms
    unfolding five using that by (rule shallow_JObj)
  have arr: "shallow 5 (JArr vs)" if "\<And>v. v \<in> set vs \<Longrightarrow> shallow 4 v" for vs
    unfolding five using that by (rule shallow_JArr)
  have resp: "encodeResponse nano r = Some ms \<Longrightarrow> shallow 5 (JObj ms)" for r ms
    using encodeResponse_shallow by (blast intro: obj)
  have ask: "encodeAskResponse nano a = Some ms \<Longrightarrow> shallow 5 (JObj ms)" for a ms
    using encodeResponse_shallow [of nano "as_Response a"]
    by (intro obj) (auto simp: encodeAskResponse_def split: if_splits)
  have simple: "shallow 5 (errorJSON s)" "shallow 5 (JObj [(k, JStr s)])" "shallow 5 (JArr (map encodeEntry es))" for s k es
    unfolding errorJSON_def using entries by (auto intro!: obj arr)
  show ?thesis
    using assms resp ask simple by (cases b) (auto simp: errorJSON_def)
qed

text \<open>A JSON text with a line break after it, as the encoder of a stream writes it.\<close>

lemma parse_line:
  assumes "shallow 5 v" "(\<exists>kvs. v = JObj kvs) \<or> (\<exists>vs. v = JArr vs)"
  shows "parseJSON (Marshal v @ [CHR 0x0A]) = Inr (normJSON v)"
proof -
  have "settled (feed (BeginValue, []) (Marshal v)) (normJSON v) []"
    using compact.reads_all [of v 0] assms(1) by (simp add: compact.reads_def shallow_def Marshal_def maxNestingDepth_def)
  then have "feed (BeginValue, []) (Marshal v) = (EndTop (normJSON v), [])"
    using assms(2) by (auto simp: settled_def)
  then show ?thesis by (simp add: parseJSON_def isSpace_def)
qed

text \<open>The instants of a response, and when it can be encoded.\<close>

definition responseTimes :: "Response \<Rightarrow> time set" where
  "responseTimes r =
     nsl_LastSeen ` set (rs_NamespaceSummary r) \<union> el_Time ` set (rs_Timeline r) \<union> el_Time ` set (rs_RootCauses r)
     \<union> pml_Timestamp ` set (rs_PodMetrics r)"

lemma those_None: "those xs = None \<longleftrightarrow> None \<in> set xs"
  by (induction xs) (auto split: option.split)

lemma encodeResponse_None:
  "encodeResponse nano r = None \<longleftrightarrow> (\<exists>t \<in> responseTimes r. t < - (366 * Day) \<or> 3652059 * Day \<le> t)"
proof -
  have time: "encodeTime nano t = None \<longleftrightarrow> t < - (366 * Day) \<or> 3652059 * Day \<le> t" for t
    by (auto simp: encodeTime_def)
  have "encodeResponse nano r = None \<longleftrightarrow>
      those (map (encodeNamespaceSummaryLine nano) (rs_NamespaceSummary r)) = None
      \<or> those (map (encodeEventLine nano) (rs_Timeline r)) = None
      \<or> those (map (encodeEventLine nano) (rs_RootCauses r)) = None
      \<or> those (map (encodePodMetricsLine nano) (rs_PodMetrics r)) = None"
    by (simp add: encodeResponse_def split: option.split)
  also have "\<dots> \<longleftrightarrow> (\<exists>t \<in> responseTimes r. encodeTime nano t = None)"
    by (force simp: those_None responseTimes_def encodeNamespaceSummaryLine_def encodeEventLine_def encodePodMetricsLine_def)
  finally show ?thesis by (simp add: time)
qed

lemma writeJSON_value:
  assumes "encodeBody nano quote jsonErr b = Some v"
  shows "writeJSON nano quote jsonErr (code, b) = (code, Marshal v @ [CHR 0x0A])"
    and "parseJSON (Marshal v @ [CHR 0x0A]) = Inr (normJSON v)"
proof -
  show "writeJSON nano quote jsonErr (code, b) = (code, Marshal v @ [CHR 0x0A])"
    using assms by (cases b) (auto simp: writeJSON_def)
  show "parseJSON (Marshal v @ [CHR 0x0A]) = Inr (normJSON v)"
    using parse_line encodeBody_shallow [OF assms] by auto
qed

section \<open>Properties\<close>

text \<open>
  C18. What a client reads is what was meant: the bytes of a reply are the status of the handler
  and a JSON text that denotes exactly the encoded value, with invalid bytes of strings replaced;
  and the body is empty exactly when the value cannot be encoded, which for a response means that
  the year of one of its instants does not have four digits.
\<close>

theorem writeJSON_denotes:
  assumes "writeJSON nano quote jsonErr (code, b) = (status, bytes)"
  shows "status = code
    \<and> (\<forall>v. encodeBody nano quote jsonErr b = Some v \<longrightarrow> parseJSON bytes = Inr (normJSON v))
    \<and> (case b of
         TextBody s \<Rightarrow> bytes = s
       | QueryBody r \<Rightarrow> bytes = '''' \<longleftrightarrow>
           (\<exists>t \<in> responseTimes r. t < - (366 * Day) \<or> 3652059 * Day \<le> t)
       | AskBody a \<Rightarrow> bytes = '''' \<longleftrightarrow>
           (\<exists>t \<in> responseTimes (as_Response a). t < - (366 * Day) \<or> 3652059 * Day \<le> t)
       | _ \<Rightarrow> bytes \<noteq> '''')"
proof -
  have "status = code" and failed: "encodeBody nano quote jsonErr b = None \<Longrightarrow> (\<forall>s. b \<noteq> TextBody s) \<Longrightarrow> bytes = ''''"
    using assms by (cases b; force simp: writeJSON_def)+
  moreover have written: "bytes = Marshal v @ [CHR 0x0A]" if "encodeBody nano quote jsonErr b = Some v" for v
    using writeJSON_value(1) [OF that] assms by simp
  moreover have "parseJSON bytes = Inr (normJSON v)" if "encodeBody nano quote jsonErr b = Some v" for v
    using writeJSON_value(2) [OF that] written [OF that] by simp
  moreover have "bytes = '''' \<longleftrightarrow> encodeBody nano quote jsonErr b = None" if "\<forall>s. b \<noteq> TextBody s"
    using written failed that by (cases "encodeBody nano quote jsonErr b") auto
  moreover have "b = TextBody s \<Longrightarrow> bytes = s" for s using assms by (simp add: writeJSON_def)
  ultimately show ?thesis
    by (cases b) (simp_all add: encodeResponse_None encodeAskResponse_def)
qed

text \<open>A concise reply to a query, and its bytes.\<close>

definition exampleReplyBytes :: "nat \<times> string" where
  "exampleReplyBytes = writeJSON (\<lambda>_. ''2024-05-01T00:00:00Z'') (\<lambda>s. s) (\<lambda>_. ''bad'')
     (fst (handleQuery (envFor (\<lambda>_. agentClient)) exampleQueryBody exampleRegistry))"

theorem writeJSON_denotes_witness:
  "fst exampleReplyBytes = 200 \<and> snd exampleReplyBytes \<noteq> ''''"
proof -
  let ?r = "fst (handleQuery (envFor (\<lambda>_. agentClient)) exampleQueryBody exampleRegistry)"
  have code: "case ?r of (st, QueryBody resp) \<Rightarrow> st = 200 \<and>
      encodeResponse (\<lambda>_. ''2024-05-01T00:00:00Z'') resp \<noteq> None | _ \<Rightarrow> False" by code_simp
  then obtain resp where r: "?r = (200, QueryBody resp)" "encodeResponse (\<lambda>_. ''2024-05-01T00:00:00Z'') resp \<noteq> None"
    by (auto split: prod.splits body.splits)
  have "writeJSON (\<lambda>_. ''2024-05-01T00:00:00Z'') (\<lambda>s. s) (\<lambda>_. ''bad'') (200, QueryBody resp) =
      (fst exampleReplyBytes, snd exampleReplyBytes)" by (simp add: exampleReplyBytes_def r(1))
  from writeJSON_denotes [OF this] show ?thesis using r(2) by (simp add: encodeResponse_None)
qed

text \<open>
  The concise mode sends no timeline: the member is there, with the value null instead of an
  array.
\<close>

lemma concise_timeline_null:
  assumes "resp = Build astime rng cluster ResponseModeConcise t result" "encodeResponse nano resp = Some ms"
  shows "(''timeline'', JNull) \<in> set ms"
  using assms by (auto simp: Build_def Let_def encodeResponse_def sliceJSON_def split: option.splits)

end
