(* ===== verification/Coordinator.thy ===== *)
theory Coordinator
  imports Reply
begin

text \<open>
  The coordinator as a server: the routes of \<^verbatim>\<open>gateway.go\<close>, the dispatch of a request to its
  handler, and the start of the process (\<^verbatim>\<open>coordinator.go\<close>). A run is a sequence of calls, each
  with the surroundings it meets: the agents and the clock (\<open>env\<close>) and what the file system does
  (\<open>fs_outcome\<close>). The handlers share only the registry, whose operations are atomic, so a run is
  the order in which the calls change it.
\<close>

section \<open>Routes\<close>

text \<open>A request, with the segments of its cleaned and unescaped path.\<close>

record http_request =
  hr_Method :: string
  hr_Path :: "string list"
  hr_Auth :: string
  hr_Body :: string

datatype endpoint =
    EpHealth
  | EpQuery
  | EpAsk
  | EpRegister
  | EpUnregister string
  | EpList
  | NotFound
  | MethodNotAllowed

text \<open>
  The patterns of the multiplexer. A pattern with the method GET also takes HEAD, a wildcard
  takes one non-empty segment, and a path that only other methods have is answered with 405.
\<close>

definition routes :: "string \<Rightarrow> string list \<Rightarrow> endpoint" where
  "routes meth path =
     (if path = [''health''] then (if meth = ''GET'' \<or> meth = ''HEAD'' then EpHealth else MethodNotAllowed)
      else if path = [''query''] then (if meth = ''POST'' then EpQuery else MethodNotAllowed)
      else if path = [''ask''] then (if meth = ''POST'' then EpAsk else MethodNotAllowed)
      else if path = [''registry''] then
        (if meth = ''POST'' then EpRegister else if meth = ''GET'' \<or> meth = ''HEAD'' then EpList else MethodNotAllowed)
      else case path of
          [r, cluster] \<Rightarrow>
            if r = ''registry'' \<and> cluster \<noteq> '''' then
              (if meth = ''DELETE'' then EpUnregister cluster else MethodNotAllowed)
            else NotFound
        | _ \<Rightarrow> NotFound)"

record 'ts call =
  c_env :: "'ts env"
  c_fs :: fs_outcome
  c_req :: http_request

definition serve ::
  "(string \<Rightarrow> string) \<Rightarrow> (time \<Rightarrow> string) \<Rightarrow> (string set \<Rightarrow> string list) \<Rightarrow> gateway \<Rightarrow> 'ts call
   \<Rightarrow> Registry \<times> World \<Rightarrow> reply \<times> Registry \<times> World" where
  "serve quote rfc3339 rng g c rw =
     (let req = c_req c in
      case routes (hr_Method req) (hr_Path req) of
        EpHealth \<Rightarrow> (handleHealth, rw)
      | EpQuery \<Rightarrow> handleQuery (c_env c) (hr_Body req) rw
      | EpAsk \<Rightarrow> handleAsk (c_env c) quote rfc3339 g (hr_Body req) rw
      | EpRegister \<Rightarrow> handleRegister rng (c_fs c) g (hr_Auth req) (hr_Body req) rw
      | EpUnregister cluster \<Rightarrow> handleUnregister rng (c_fs c) g (hr_Auth req) cluster rw
      | EpList \<Rightarrow> (handleListRegistry rng rw, rw)
      | NotFound \<Rightarrow> ((404, TextBody ''404 page not found\<newline>''), rw)
      | MethodNotAllowed \<Rightarrow> ((405, TextBody ''Method Not Allowed\<newline>''), rw))"

definition serve_run ::
  "(string \<Rightarrow> string) \<Rightarrow> (time \<Rightarrow> string) \<Rightarrow> (string set \<Rightarrow> string list) \<Rightarrow> gateway \<Rightarrow> Registry \<times> World
   \<Rightarrow> 'ts call list \<Rightarrow> Registry \<times> World" where
  "serve_run quote rfc3339 rng g = foldl (\<lambda>rw c. snd (serve quote rfc3339 rng g c rw))"

section \<open>Start\<close>

text \<open>What the operating system finds at the path of the registry file, on a disk that can be read.\<close>

definition diskFile :: "World \<Rightarrow> string \<Rightarrow> read_result" where
  "diskFile w path = (case fmlookup (files w) path of None \<Rightarrow> NotExist | Some data \<Rightarrow> Contents data)"

text \<open>A registry that cannot be loaded is logged and the coordinator goes on.\<close>

definition startCoordinator :: "http \<Rightarrow> coord_Config \<Rightarrow> read_result \<Rightarrow> gateway \<times> Registry" where
  "startCoordinator http cfg rd =
     (let registry = NewRegistry (cc_RegistryFile cfg);
          (registry, err) = Load rd registry;
          llmClient = (if cc_OllamaBaseURL cfg \<noteq> ''''
                       then Some (ollamaClient http (NewOllama (cc_OllamaBaseURL cfg) (cc_OllamaModel cfg))) else None)
      in (\<lparr>gw_token = cc_RegistryToken cfg, gw_llm = llmClient\<rparr>, registry))"

section \<open>What a request changes\<close>

text \<open>The change of the registry that a request asks for, if it is allowed and well-formed.\<close>

definition change :: "gateway \<Rightarrow> 'ts call \<Rightarrow> reg_op option" where
  "change g c =
     (let req = c_req c in
      if \<not> requireToken g (hr_Auth req) then None
      else case routes (hr_Method req) (hr_Path req) of
        EpRegister \<Rightarrow>
          (case decodeRegister (hr_Body req) of
             Inr r \<Rightarrow> if rr_ClusterName r = '''' \<or> rr_GRPCEndpoint r = '''' then None
                else Some (OpRegister (c_fs c) \<lparr>ent_ClusterName = rr_ClusterName r,
                             ent_GRPCEndpoint = rr_GRPCEndpoint r, ent_Labels = rr_Labels r\<rparr>)
           | Inl _ \<Rightarrow> None)
      | EpUnregister cluster \<Rightarrow> Some (OpUnregister (c_fs c) cluster)
      | _ \<Rightarrow> None)"

lemma serve_change:
  "snd (serve quote rfc3339 rng g c rw) = reg_step rng rw a" if "change g c = Some a"
  using that
  by (auto simp: change_def serve_def handleRegister_def handleUnregister_def Let_def
      split: if_splits endpoint.splits sum.splits)

lemma serve_frame:
  "same_registrations rw (snd (serve quote rfc3339 rng g c rw))" if "change g c = None"
  using that
  by (auto simp: change_def serve_def handleRegister_def handleUnregister_def Let_def handleQuery_frame handleAsk_frame
      split: if_splits endpoint.splits sum.splits)

lemma change_shape:
  assumes "change g c = Some a"
  shows "(\<exists>e. a = OpRegister (c_fs c) e) \<or> (\<exists>n. a = OpUnregister (c_fs c) n)"
  using assms by (auto simp: change_def Let_def split: if_splits endpoint.splits sum.splits)

text \<open>What is registered over HTTP is valid UTF-8, whatever the body.\<close>

definition request_utf8 :: "RegisterRequest \<Rightarrow> bool" where
  "request_utf8 r \<longleftrightarrow> valid_utf8 (rr_ClusterName r) \<and> valid_utf8 (rr_GRPCEndpoint r) \<and> labels_utf8 (rr_Labels r)"

lemma registerFields_utf8:
  assumes "findField registerFields k = Some f" "f r v = Inr r'" "request_utf8 r" "utf8JSON v"
  shows "request_utf8 r'"
proof -
  have "(k', f) \<in> set registerFields \<Longrightarrow> request_utf8 r'" for k'
    using assms(2-4) decString_utf8 decStringMap_utf8
    by (auto simp: registerFields_def field_def request_utf8_def split: sum.splits)
  then show ?thesis using findField_mem [OF assms(1)] by blast
qed

lemma decodeRegister_utf8:
  assumes "decodeRegister bdy = Inr r"
  shows "request_utf8 r"
proof -
  obtain v where v: "decodeJSON bdy = Inr v"
    "decStruct registerFields \<lparr>rr_ClusterName = '''', rr_GRPCEndpoint = '''', rr_Labels = fmempty\<rparr> v = Inr r"
    using assms by (auto simp: decodeRegister_def Decode_def split: sum.splits)
  show ?thesis
  proof (rule decStruct_invariant [OF v(2) _ decodeJSON_utf8 [OF v(1)]])
    show "request_utf8 \<lparr>rr_ClusterName = '''', rr_GRPCEndpoint = '''', rr_Labels = fmempty\<rparr>"
      by (simp add: request_utf8_def labels_utf8_def)
  qed (rule registerFields_utf8)
qed

lemma change_utf8: "change g c = Some a \<Longrightarrow> op_utf8 a"
  using decodeRegister_utf8
  by (auto simp: change_def Let_def request_utf8_def entry_utf8_def split: if_splits endpoint.splits sum.splits)

section \<open>Runs\<close>

text \<open>The registrations that the requests of a run amount to.\<close>

definition spec_call :: "gateway \<Rightarrow> (string, ClusterEntry) fmap \<Rightarrow> 'ts call \<Rightarrow> (string, ClusterEntry) fmap" where
  "spec_call g m c = (case change g c of Some a \<Rightarrow> spec_step m a | None \<Rightarrow> m)"

definition coord_inv :: "Registry \<times> World \<Rightarrow> bool" where
  "coord_inv rw \<longleftrightarrow> reg_inv rw \<and> reg_utf8 (fst rw)"

lemma serve_inv:
  assumes "coord_inv rw"
  shows "coord_inv (snd (serve quote rfc3339 rng g c rw))"
proof (cases "change g c")
  case None
  then show ?thesis
    using serve_frame [OF None, of rw quote rfc3339 rng] assms by (simp add: coord_inv_def same_registrations_def reg_utf8_def)
next
  case (Some a)
  have "\<And>o' e. a = OpRegister o' e \<Longrightarrow> entry_utf8 e" using change_utf8 [OF Some] by auto
  then show ?thesis
    using assms by (simp add: serve_change [OF Some] coord_inv_def reg_step_inv reg_step_utf8)
qed

lemma serve_entries: "entries (fst (snd (serve quote rfc3339 rng g c rw))) = spec_call g (entries (fst rw)) c"
proof (cases "change g c")
  case None
  then show ?thesis
    using serve_frame [OF None, of rw quote rfc3339 rng] by (simp add: same_registrations_def spec_call_def)
next
  case (Some a)
  then show ?thesis by (simp add: serve_change [OF Some] reg_step_entries spec_call_def)
qed

lemma serve_run_inv:
  assumes "coord_inv rw"
  shows "coord_inv (serve_run quote rfc3339 rng g rw calls)
    \<and> entries (fst (serve_run quote rfc3339 rng g rw calls)) = foldl (spec_call g) (entries (fst rw)) calls"
  using assms by (induction calls arbitrary: rw) (simp_all add: serve_run_def serve_inv serve_entries)

lemma start_inv: "openConns w = {} \<Longrightarrow> coord_inv (snd (startCoordinator http cfg rd), w)"
  using Load_inv [of w rd] Load_utf8 [of "NewRegistry (cc_RegistryFile cfg)" rd]
  by (simp add: coord_inv_def startCoordinator_def split_beta reg_utf8_def entries_utf8_def NewRegistry_def)

text \<open>
  The registry and its file agree: a registry loaded from the file has the same entries. Files at
  other paths are untouched.
\<close>

definition synced :: "World \<Rightarrow> Registry \<times> World \<Rightarrow> bool" where
  "synced w0 rw \<longleftrightarrow>
     fst (Load (diskFile (snd rw) (filePath (fst rw))) (NewRegistry (filePath (fst rw)))) = (fst rw) \<lparr>conns := fmempty\<rparr>
     \<and> (\<forall>p. p \<noteq> filePath (fst rw) \<longrightarrow> fmlookup (files (snd rw)) p = fmlookup (files w0) p)"

lemma synced_frame:
  assumes "synced w0 rw" "same_registrations rw rw'"
  shows "synced w0 rw'"
proof -
  obtain r w r' w' where rw: "rw = (r, w)" "rw' = (r', w')" by (cases rw, cases rw')
  have "r' \<lparr>conns := fmempty\<rparr> = r \<lparr>conns := fmempty\<rparr>"
    using assms(2) by (simp add: rw same_registrations_def)
  then show ?thesis using assms by (simp add: rw synced_def same_registrations_def diskFile_def)
qed

lemma synced_start:
  "synced w (snd (startCoordinator http cfg (diskFile w (cc_RegistryFile cfg))), w)"
  by (auto simp: synced_def startCoordinator_def split_beta Load_entries NewRegistry_def)

lemma fresh_temp_other:
  "fresh_temp o' path w0 \<Longrightarrow> (\<And>p. p \<noteq> path \<Longrightarrow> fmlookup (files w) p = fmlookup (files w0) p) \<Longrightarrow> fresh_temp o' path w"
  by (auto simp: fresh_temp_def split: option.splits)

lemma synced_step:
  assumes "go_range rng" "coord_inv rw" "synced w0 rw" "filePath (fst rw) = path" "path \<noteq> ''''"
    and "change g c = Some a" "fs_ok (c_fs c)" "fresh_temp (c_fs c) path w0"
  shows "synced w0 (reg_step rng rw a) \<and> filePath (fst (reg_step rng rw a)) = path"
proof -
  obtain r' w' where step: "reg_step rng rw a = (r', w')" by (cases "reg_step rng rw a")
  obtain e n where a: "a = OpRegister (c_fs c) e \<or> a = OpUnregister (c_fs c) n" using change_shape [OF assms(6)] by blast
  obtain w where w: "w' = save rng (c_fs c) r' w" "files w = files (snd rw)" and fp: "filePath r' = path"
    using a step assms(4) by (auto simp: Register_def Unregister_def Let_def split_beta)
  have fresh: "fresh_temp (c_fs c) path w"
    using assms(3,4,8) w(2) by (intro fresh_temp_other [OF assms(8)]) (simp add: synced_def)
  have utf8: "reg_utf8 r'"
    using reg_step_utf8 [of rw a rng] assms(2) change_utf8 [OF assms(6)] step by (cases a) (simp_all add: coord_inv_def)
  have fresh': "fresh_temp (c_fs c) (filePath (fst rw)) (snd rw)"
    using fresh assms(4) w(2) by (simp add: fresh_temp_def split: option.splits)
  have inv: "reg_inv rw" and path: "filePath r' \<noteq> ''''" using assms(2,5) fp by (simp_all add: coord_inv_def)
  obtain data where "fmlookup (files w') path = Some data" "Load (Contents data) (NewRegistry path) = (r' \<lparr>conns := fmempty\<rparr>, None)"
    using saved_and_reloaded [OF assms(1) inv a step path assms(7) fresh' utf8] unfolding fp by blast
  moreover have "fmlookup (files w') p = fmlookup (files w0) p" if "p \<noteq> path" for p
    using save_files [of "c_fs c" r' w rng p] fresh fp that assms(3,4,7) w by (simp add: synced_def)
  ultimately show ?thesis using step fp by (simp add: synced_def diskFile_def)
qed

lemma serve_synced:
  assumes "go_range rng" "coord_inv rw" "synced w0 rw" "filePath (fst rw) = path" "path \<noteq> ''''"
    and "fs_ok (c_fs c)" "fresh_temp (c_fs c) path w0"
  shows "synced w0 (snd (serve quote rfc3339 rng g c rw)) \<and> filePath (fst (snd (serve quote rfc3339 rng g c rw))) = path"
proof (cases "change g c")
  case None
  note frame = serve_frame [OF None, of rw quote rfc3339 rng]
  then show ?thesis using synced_frame [OF assms(3) frame] assms(4) by (simp add: same_registrations_def)
next
  case (Some a)
  then show ?thesis using synced_step [OF assms(1-5) Some assms(6,7)] by (simp add: serve_change [OF Some])
qed

section \<open>Properties\<close>

text \<open>
  C8. The coordinator keeps exactly the registrations that authorised, well-formed requests made:
  after the start and any sequence of HTTP requests, with any bodies, any behaviour of the agents
  and any failures of the file system, the entries are those of the loaded file changed by these
  requests in their order, every connection that is kept is open and leads to the endpoint
  registered now, and every stored string is valid UTF-8.
\<close>

theorem requests_refine_map:
  assumes "openConns w = {}" "startCoordinator http cfg rd = (g, r)"
    and "serve_run quote rfc3339 rng g (r, w) calls = (r', w')"
  shows "entries r' = foldl (spec_call g) (entries r) calls \<and> reg_inv (r', w') \<and> reg_utf8 r'"
proof -
  have "coord_inv (r, w)" using start_inv [OF assms(1), of http cfg rd] assms(2) by simp
  then show ?thesis using serve_run_inv [of "(r, w)" quote rfc3339 rng g calls] assms(3) by (simp add: coord_inv_def)
qed

text \<open>
  C7. A restart loses nothing: when the disk works, a coordinator that is started again after any
  sequence of HTTP requests, whatever their bodies, has the same gateway and exactly the entries
  it had before.
\<close>

theorem restart_restores:
  assumes "go_range rng" "openConns w = {}" "cc_RegistryFile cfg \<noteq> ''''"
    and "startCoordinator http cfg (diskFile w (cc_RegistryFile cfg)) = (g, r)"
    and "\<forall>c \<in> set calls. fs_ok (c_fs c) \<and> fresh_temp (c_fs c) (cc_RegistryFile cfg) w"
    and "serve_run quote rfc3339 rng g (r, w) calls = (r', w')"
  shows "startCoordinator http cfg (diskFile w' (cc_RegistryFile cfg)) = (g, r' \<lparr>conns := fmempty\<rparr>)"
proof -
  let ?path = "cc_RegistryFile cfg"
  let ?ok = "\<lambda>rw. coord_inv rw \<and> synced w rw \<and> filePath (fst rw) = ?path"
  have "?ok (serve_run quote rfc3339 rng g rw calls)" if "?ok rw" for rw
    using that assms(5)
  proof (induction calls arbitrary: rw)
    case (Cons c calls)
    have "?ok (snd (serve quote rfc3339 rng g c rw))"
      using Cons.prems serve_inv [of rw] serve_synced [OF assms(1), of rw w ?path c] assms(3) by simp
    then show ?case using Cons.IH Cons.prems(2) by (simp add: serve_run_def)
  qed (simp add: serve_run_def)
  moreover have "?ok (r, w)"
    using start_inv [OF assms(2), of http cfg] synced_start [of w http cfg] assms(4)
    by (auto simp: startCoordinator_def split_beta Load_entries NewRegistry_def)
  ultimately have "synced w (r', w')" "filePath r' = ?path" using assms(6) by (metis fst_conv)+
  then show ?thesis using assms(4) by (auto simp: synced_def startCoordinator_def split_beta)
qed

text \<open>
  C17. The listing is complete and readable: after the start and any sequence of requests,
  \<^verbatim>\<open>GET /registry\<close> is answered with 200 and a JSON text that decodes to the registered
  entries, each exactly once, with their names, endpoints and labels.
\<close>

theorem listing_complete:
  assumes "go_range rng" "openConns w = {}" "startCoordinator http cfg rd = (g, r)"
    and "rw' = serve_run quote rfc3339 rng g (r, w) calls"
    and "hr_Method (c_req c) = ''GET''" "hr_Path (c_req c) = [''registry'']"
    and "writeJSON nano quote jsonErr (fst (serve quote rfc3339 rng g c rw')) = (status, bytes)"
  shows "status = 200 \<and> (\<exists>es. Unmarshal decodeEntries bytes = Inr es \<and> distinct (map ent_ClusterName es)
    \<and> set es = {e. \<exists>n. fmlookup (foldl (spec_call g) (entries r) calls) n = Some e})"
proof -
  have start: "coord_inv (r, w)" using start_inv [OF assms(2), of http cfg rd] assms(3) by simp
  have inv: "coord_inv rw'" and ent: "entries (fst rw') = foldl (spec_call g) (entries r) calls"
    using serve_run_inv [OF start, of quote rfc3339 rng g calls] assms(4) by auto
  let ?es = "List_entries rng (fst rw')"
  have "routes ''GET'' [''registry''] = EpList" by (simp add: routes_def)
  then have reply: "fst (serve quote rfc3339 rng g c rw') = (200, ListBody ?es)"
    using assms(5,6) by (simp add: serve_def handleListRegistry_def)
  have body: "encodeBody nano quote jsonErr (ListBody ?es) = Some (JArr (map encodeEntry ?es))" by simp
  have bytes: "status = 200" "parseJSON bytes = Inr (normJSON (JArr (map encodeEntry ?es)))"
    using assms(7) writeJSON_value(1) [OF body, of 200] writeJSON_value(2) [OF body] unfolding reply by simp_all
  have names: "map ent_ClusterName ?es = rng (fmdom' (entries (fst rw')))"
    "set ?es = {e. \<exists>n. fmlookup (entries (fst rw')) n = Some e}"
    using List_entries_names [OF assms(1), of "fst rw'" "snd rw'"] inv by (simp_all add: coord_inv_def)
  have "\<And>e. e \<in> set ?es \<Longrightarrow> entry_utf8 e"
    using inv names(2) by (auto simp: coord_inv_def reg_utf8_def entries_utf8_def)
  then have "Unmarshal decodeEntries bytes = Inr ?es"
    using bytes(2) decodeEntries_encoded [of ?es] by (simp add: Unmarshal_def)
  moreover have "distinct (map ent_ClusterName ?es)"
    unfolding names(1) using go_range.distinct_rng [OF assms(1)] by simp
  ultimately show ?thesis using bytes(1) names(2) ent by auto
qed

section \<open>Examples\<close>

definition exampleConfig :: coord_Config where
  "exampleConfig = coord_fromEnv (\<lambda>k. if k = ''MCP_REGISTRY_FILE'' then ''/data/reg.json''
     else if k = ''MCP_REGISTRY_TOKEN'' then ''secret'' else '''')"

definition exampleRegisterBody :: string where
  \<open>exampleRegisterBody = ''{"cluster_name":"prod","GRPC_Endpoint":"prod:9000","labels":{"env":"<eu>"}} trailing''\<close>

text \<open>A registration, a question, a removal without the token, and a wrong method.\<close>

definition exampleCalls :: "(int \<times> int) call list" where
  "exampleCalls = map (\<lambda>req. \<lparr>c_env = envFor (\<lambda>_. agentClient), c_fs = allOk, c_req = req\<rparr>)
     [\<lparr>hr_Method = ''POST'', hr_Path = [''registry''], hr_Auth = ''Bearer secret'', hr_Body = exampleRegisterBody\<rparr>,
      \<lparr>hr_Method = ''POST'', hr_Path = [''query''], hr_Auth = '''', hr_Body = exampleQueryBody\<rparr>,
      \<lparr>hr_Method = ''DELETE'', hr_Path = [''registry'', ''prod''], hr_Auth = '''', hr_Body = ''''\<rparr>,
      \<lparr>hr_Method = ''PUT'', hr_Path = [''registry''], hr_Auth = '''', hr_Body = ''''\<rparr>]"

definition exampleStart :: "gateway \<times> Registry" where
  "exampleStart = startCoordinator exampleHttp exampleConfig (diskFile exampleWorld ''/data/reg.json'')"

definition exampleEnd :: "Registry \<times> World" where
  "exampleEnd = serve_run (\<lambda>s. s) (\<lambda>_. '''') sorted_list_of_set (fst exampleStart) (snd exampleStart, exampleWorld) exampleCalls"

lemma exampleStart_eq:
  "startCoordinator exampleHttp exampleConfig (diskFile exampleWorld ''/data/reg.json'') = (fst exampleStart, snd exampleStart)"
  "serve_run (\<lambda>s. s) (\<lambda>_. '''') sorted_list_of_set (fst exampleStart) (snd exampleStart, exampleWorld) exampleCalls =
     (fst exampleEnd, snd exampleEnd)"
  by (simp_all add: exampleStart_def exampleEnd_def)

lemma exampleEnd_entries:
  "map (\<lambda>e. (ent_ClusterName e, ent_GRPCEndpoint e, fmlookup (ent_Labels e) ''env''))
     (List_entries sorted_list_of_set (fst exampleEnd)) = [(''prod'', ''prod:9000'', Some ''<eu>'')]"
  by code_simp

theorem requests_refine_map_witness:
  "reg_inv (fst exampleEnd, snd exampleEnd) \<and> reg_utf8 (fst exampleEnd)
   \<and> fmdom' (foldl (spec_call (fst exampleStart)) (entries (snd exampleStart)) exampleCalls) = {''prod''}"
proof -
  have "fmdom' (entries (fst exampleEnd)) = {''prod''}" by code_simp
  then show ?thesis
    using requests_refine_map [OF exampleWorld_closed exampleStart_eq] by simp
qed

theorem restart_restores_witness:
  "startCoordinator exampleHttp exampleConfig (diskFile (snd exampleEnd) ''/data/reg.json'') =
     (fst exampleStart, (fst exampleEnd) \<lparr>conns := fmempty\<rparr>)
   \<and> entries (fst exampleEnd) \<noteq> fmempty"
proof -
  have path: "cc_RegistryFile exampleConfig = ''/data/reg.json''"
    by (simp add: exampleConfig_def coord_fromEnv_def)
  have disk: "\<forall>c \<in> set exampleCalls. fs_ok (c_fs c) \<and> fresh_temp (c_fs c) (cc_RegistryFile exampleConfig) exampleWorld"
    unfolding path by code_simp
  have "entries (fst exampleEnd) \<noteq> fmempty"
    using exampleEnd_entries by (auto simp: List_entries_def)
  then show ?thesis
    using restart_restores [OF go_range_sorted exampleWorld_closed _ _ disk exampleStart_eq(2), where http = exampleHttp]
      exampleStart_eq(1) unfolding path by simp
qed

definition exampleListing :: "(int \<times> int) call" where
  "exampleListing = \<lparr>c_env = envFor (\<lambda>_. agentClient), c_fs = allOk,
     c_req = \<lparr>hr_Method = ''GET'', hr_Path = [''registry''], hr_Auth = '''', hr_Body = ''''\<rparr>\<rparr>"

theorem listing_complete_witness:
  "\<exists>es. Unmarshal decodeEntries (snd (writeJSON (\<lambda>_. '''') (\<lambda>s. s) (\<lambda>_. '''')
       (fst (serve (\<lambda>s. s) (\<lambda>_. '''') sorted_list_of_set (fst exampleStart) exampleListing exampleEnd)))) = Inr es
     \<and> distinct (map ent_ClusterName es)"
proof -
  let ?w = "writeJSON (\<lambda>_. '''') (\<lambda>s. s) (\<lambda>_. '''')
       (fst (serve (\<lambda>s. s) (\<lambda>_. '''') sorted_list_of_set (fst exampleStart) exampleListing exampleEnd))"
  have get: "hr_Method (c_req exampleListing) = ''GET''" "hr_Path (c_req exampleListing) = [''registry'']"
    by (simp_all add: exampleListing_def)
  have run: "exampleEnd = serve_run (\<lambda>s. s) (\<lambda>_. '''') sorted_list_of_set (fst exampleStart) (snd exampleStart, exampleWorld) exampleCalls"
    by (simp add: exampleEnd_def)
  have "?w = (fst ?w, snd ?w)" by simp
  from listing_complete [OF go_range_sorted exampleWorld_closed exampleStart_eq(1) run get this]
  show ?thesis by blast
qed

end
