(* ===== verification/Lifecycle.thy ===== *)
theory Lifecycle
  imports Coordinator
begin

text \<open>
  The life of the two processes: \<^verbatim>\<open>ClusterAgent.Run\<close>
  (\<^verbatim>\<open>internal/app/clusteragent/clusteragent.go\<close>), \<^verbatim>\<open>Coordinator.Run\<close>
  (\<^verbatim>\<open>internal/app/coordinator/coordinator.go\<close>) and the two entry points under
  \<^verbatim>\<open>cmd\<close>, from the environment to the exit code.

  What client-go, the network and the servers of the libraries do is given: the record
  \<open>agent_deps\<close> has the results of the calls made during start-up, and a list of events says in which
  order the informer and the pipeline act, calls arrive, and a case of the final \<^verbatim>\<open>select\<close>
  becomes ready. Each process is a function from its events to its state, \<open>None\<close> when an event
  cannot happen in the state it meets; a process that has ended ignores what follows.
\<close>

section \<open>The cluster agent\<close>

record 'c agent_deps =
  ad_inCluster :: "string + 'c"
  ad_buildConfig :: "string \<Rightarrow> string + 'c"
  ad_recommended :: string
  ad_newClient :: "'c \<Rightarrow> string + (nat \<Rightarrow> k8s_client) \<times> (string \<Rightarrow> string \<Rightarrow> PodLogOptions \<Rightarrow> string + (string + string))"
  ad_newMetrics :: "'c \<Rightarrow> string + metrics_client"
  ad_addHandler :: "string option"
  ad_ctxErr :: string
  ad_listen :: "string \<Rightarrow> string option"

definition agent_New :: "(string \<Rightarrow> string) \<Rightarrow> string + agent_Config" where
  "agent_New Getenv = (case agent_FromEnv Getenv of Inl err \<Rightarrow> Inl (''config: '' @ err) | Inr cfg \<Rightarrow> Inr cfg)"

type_synonym agent_clients =
  "((nat \<Rightarrow> k8s_client) \<times> (string \<Rightarrow> string \<Rightarrow> PodLogOptions \<Rightarrow> string + (string + string))) \<times> metrics_client interface"

definition connect :: "'c agent_deps \<Rightarrow> agent_Config \<Rightarrow> string + agent_clients" where
  "connect deps cfg =
     (case KubeConfig (ad_inCluster deps) (ad_buildConfig deps) (ad_recommended deps) cfg of
        Inl err \<Rightarrow> Inl (''kubeconfig: '' @ err)
      | Inr restCfg \<Rightarrow>
          (case ad_newClient deps restCfg of
             Inl err \<Rightarrow> Inl (''k8s client: '' @ err)
           | Inr k8sClient \<Rightarrow> Inr (k8sClient, metricsInterface (ad_newMetrics deps restCfg))))"

text \<open>
  The state of \<^verbatim>\<open>Run\<close>: waiting for the cache of the watcher, serving RPCs over the store that
  the watcher fills, or returned, with an error or without. A panic in the goroutine of a handler,
  which nothing recovers, ends the whole process.
\<close>

datatype agent_state =
    AgentWaiting watcher agent_clients
  | AgentServing watcher grpcServer
  | AgentReturned "string option"
  | AgentPanicked

text \<open>The calls of the service \<^verbatim>\<open>ClusterAgentService\<close>.\<close>

datatype 'ts rpc =
    CallListEvents "'ts ListEventsRequest"
  | CallGetEventsForObject GetEventsForObjectRequest
  | CallGetNamespaceSummary "'ts GetNamespaceSummaryRequest"
  | CallResolveOwnerChain ResolveOwnerChainRequest
  | CallGetObjectSnapshot GetObjectSnapshotRequest
  | CallGetContainerLogs GetContainerLogsRequest
  | CallGetPodMetrics GetPodMetricsRequest

text \<open>All handlers but one return a response or an error; they read the state and leave it unchanged.\<close>

definition rpc_panics :: "(time \<Rightarrow> 'ts) \<Rightarrow> grpcServer \<Rightarrow> 'ts rpc \<Rightarrow> bool" where
  "rpc_panics tnew srv c = (case c of CallGetPodMetrics req \<Rightarrow> Option.is_none (GetPodMetrics tnew srv req) | _ \<Rightarrow> False)"

text \<open>
  The cases of the final \<^verbatim>\<open>select\<close>. \<^verbatim>\<open>ServeFailed\<close>: the server gave up; \<^verbatim>\<open>Cancelled\<close>: the
  context is done.
\<close>

datatype stop = Cancelled | ServeFailed string

datatype 'ts agent_event = Watch action | Call "'ts rpc" | Stop stop

text \<open>\<^verbatim>\<open>Run\<close> up to the wait for the cache.\<close>

definition agent_start :: "'c agent_deps \<Rightarrow> agent_Config \<Rightarrow> agent_state" where
  "agent_start deps cfg =
     (case connect deps cfg of
        Inl err \<Rightarrow> AgentReturned (Some err)
      | Inr clients \<Rightarrow>
          let eventStore = New (ac_StoreMaxSize cfg);
              w = newWatcher (ac_ClusterName cfg) eventStore
          in (case ad_addHandler deps of
                Some err \<Rightarrow> AgentReturned (Some (''watcher start: '' @ err))
              | None \<Rightarrow> AgentWaiting w clients))"

text \<open>
  \<^verbatim>\<open>Run\<close> after \<^verbatim>\<open>w.Start\<close> has returned nil. The server reads the store through the pointer it
  shares with the watcher.
\<close>

definition agent_listen :: "'c agent_deps \<Rightarrow> agent_Config \<Rightarrow> watcher \<Rightarrow> agent_clients \<Rightarrow> agent_state" where
  "agent_listen deps cfg w clients =
     (case ad_listen deps (ac_GRPCAddr cfg) of
        Some err \<Rightarrow> AgentReturned (Some (''listen '' @ ac_GRPCAddr cfg @ '': '' @ err))
      | None \<Rightarrow>
          (case clients of
             ((enricher, getLogs), metrics) \<Rightarrow> AgentServing w (newGRPCServer (w_store w) enricher getLogs metrics)))"

fun agent_step ::
  "ctx \<Rightarrow> (time \<Rightarrow> 'ts) \<Rightarrow> 'c agent_deps \<Rightarrow> agent_Config \<Rightarrow> agent_state \<Rightarrow> 'ts agent_event \<Rightarrow> agent_state option" where
  "agent_step ctx tnew deps cfg (AgentWaiting w clients) (Watch a) =
     (case wnext ctx w a of
        None \<Rightarrow> None
      | Some w' \<Rightarrow> Some
          (case w_phase w' of
             Starting \<Rightarrow> AgentWaiting w' clients
           | Agent.Failed \<Rightarrow> AgentReturned (Some (''watcher start: '' @ ad_ctxErr deps))
           | _ \<Rightarrow> agent_listen deps cfg w' clients))"
| "agent_step ctx tnew deps cfg (AgentWaiting w clients) _ = None"
| "agent_step ctx tnew deps cfg (AgentServing w srv) (Watch a) =
     (case wnext ctx w a of None \<Rightarrow> None | Some w' \<Rightarrow> Some (AgentServing w' (srv \<lparr>srv_store := w_store w'\<rparr>)))"
| "agent_step ctx tnew deps cfg (AgentServing w srv) (Call c) =
     Some (if rpc_panics tnew srv c then AgentPanicked else AgentServing w srv)"
| "agent_step ctx tnew deps cfg (AgentServing w srv) (Stop Cancelled) =
     (if w_ctxDone w then Some (AgentReturned None) else None)"
| "agent_step ctx tnew deps cfg (AgentServing w srv) (Stop (ServeFailed err)) =
     Some (AgentReturned (Some (''grpc serve: '' @ err)))"
| "agent_step ctx tnew deps cfg (AgentReturned err) _ = Some (AgentReturned err)"
| "agent_step ctx tnew deps cfg AgentPanicked _ = Some AgentPanicked"

text \<open>The steps of a process, one after the other.\<close>

fun exec_all :: "('s \<Rightarrow> 'e \<Rightarrow> 's option) \<Rightarrow> 's \<Rightarrow> 'e list \<Rightarrow> 's option" where
  "exec_all f s [] = Some s"
| "exec_all f s (e # es) = (case f s e of None \<Rightarrow> None | Some s' \<Rightarrow> exec_all f s' es)"

definition agent_Run ::
  "ctx \<Rightarrow> (time \<Rightarrow> 'ts) \<Rightarrow> 'c agent_deps \<Rightarrow> agent_Config \<Rightarrow> 'ts agent_event list \<Rightarrow> agent_state option" where
  "agent_Run ctx tnew deps cfg evs = exec_all (agent_step ctx tnew deps cfg) (agent_start deps cfg) evs"

section \<open>The coordinator\<close>

datatype coord_state = CoordServing gateway "Registry \<times> World" | CoordReturned "string option"

datatype 'ts coord_event = Request "'ts call" | CoordStop stop

text \<open>
  \<open>shutdownErr\<close> is the error of \<^verbatim>\<open>srv.Shutdown\<close>, if it has one. The case of the context needs a
  context that can be cancelled.
\<close>

fun coord_step ::
  "ctx \<Rightarrow> (string \<Rightarrow> string) \<Rightarrow> (time \<Rightarrow> string) \<Rightarrow> (string set \<Rightarrow> string list) \<Rightarrow> string option
   \<Rightarrow> coord_state \<Rightarrow> 'ts coord_event \<Rightarrow> coord_state option" where
  "coord_step ctx quote rfc3339 rng shutdownErr (CoordServing g rw) (Request c) =
     Some (CoordServing g (snd (serve quote rfc3339 rng g c rw)))"
| "coord_step ctx quote rfc3339 rng shutdownErr (CoordServing g rw) (CoordStop Cancelled) =
     (if ctx = Cancellable
      then Some (case shutdownErr of
                   Some err \<Rightarrow> CoordReturned (Some (''http shutdown: '' @ err)) | None \<Rightarrow> CoordReturned None)
      else None)"
| "coord_step ctx quote rfc3339 rng shutdownErr (CoordServing g rw) (CoordStop (ServeFailed err)) =
     Some (CoordReturned (Some (''http serve: '' @ err)))"
| "coord_step ctx quote rfc3339 rng shutdownErr (CoordReturned err) _ = Some (CoordReturned err)"

definition coordinator_Run ::
  "ctx \<Rightarrow> (string \<Rightarrow> string) \<Rightarrow> (time \<Rightarrow> string) \<Rightarrow> (string set \<Rightarrow> string list) \<Rightarrow> http \<Rightarrow> string option
   \<Rightarrow> coord_Config \<Rightarrow> read_result \<Rightarrow> World \<Rightarrow> 'ts coord_event list \<Rightarrow> coord_state option" where
  "coordinator_Run ctx quote rfc3339 rng http shutdownErr cfg rd wld evs =
     (let (gw, registry) = startCoordinator http cfg rd
      in exec_all (coord_step ctx quote rfc3339 rng shutdownErr) (CoordServing gw (registry, wld)) evs)"

section \<open>Entry points\<close>

text \<open>
  The exit code: 1 after an error, 0 when \<^verbatim>\<open>Run\<close> returned nil, and the 2 of the Go runtime after
  a panic.
\<close>

datatype process = Alive | Exited nat

definition exitCode :: "string option \<Rightarrow> nat" where
  "exitCode err = (case err of Some _ \<Rightarrow> 1 | None \<Rightarrow> 0)"

fun agent_process :: "agent_state \<Rightarrow> process" where
  "agent_process (AgentReturned err) = Exited (exitCode err)"
| "agent_process AgentPanicked = Exited 2"
| "agent_process _ = Alive"

fun coord_process :: "coord_state \<Rightarrow> process" where
  "coord_process (CoordReturned err) = Exited (exitCode err)"
| "coord_process (CoordServing _ _) = Alive"

text \<open>Both pass \<^verbatim>\<open>context.Background()\<close> to \<^verbatim>\<open>Run\<close>.\<close>

definition agent_main ::
  "(time \<Rightarrow> 'ts) \<Rightarrow> 'c agent_deps \<Rightarrow> (string \<Rightarrow> string) \<Rightarrow> 'ts agent_event list \<Rightarrow> process option" where
  "agent_main tnew deps Getenv evs =
     (case agent_New Getenv of
        Inl err \<Rightarrow> Some (Exited 1)
      | Inr cfg \<Rightarrow> map_option agent_process (agent_Run Background tnew deps cfg evs))"

definition coordinator_main ::
  "(string \<Rightarrow> string) \<Rightarrow> (time \<Rightarrow> string) \<Rightarrow> (string set \<Rightarrow> string list) \<Rightarrow> http \<Rightarrow> string option
   \<Rightarrow> (string \<Rightarrow> string) \<Rightarrow> read_result \<Rightarrow> World \<Rightarrow> 'ts coord_event list \<Rightarrow> process option" where
  "coordinator_main quote rfc3339 rng http shutdownErr Getenv rd wld evs =
     map_option coord_process
       (coordinator_Run Background quote rfc3339 rng http shutdownErr (coord_fromEnv Getenv) rd wld evs)"

section \<open>Lemmas\<close>

lemma exec_all_snoc: "exec_all f s (es @ [e]) = Option.bind (exec_all f s es) (\<lambda>s'. f s' e)"
  by (induction es arbitrary: s) (auto split: option.splits)

text \<open>An invariant of all reachable states, which may speak of the events so far.\<close>

lemma exec_all_invariant:
  assumes "exec_all f s es = Some s'" "I [] s"
    and "\<And>es e s s'. I es s \<Longrightarrow> f s e = Some s' \<Longrightarrow> I (es @ [e]) s'"
  shows "I es s'"
  using assms(1)
proof (induction es arbitrary: s' rule: rev_induct)
  case (snoc e es)
  then obtain s1 where "exec_all f s es = Some s1" "f s1 e = Some s'"
    by (auto simp: exec_all_snoc bind_eq_Some_conv)
  then show ?case using snoc.IH assms(3) by blast
qed (use assms(2) in simp)

definition watched :: "'ts agent_event list \<Rightarrow> action list" where
  "watched evs = concat (map (\<lambda>ev. case ev of Watch a \<Rightarrow> [a] | _ \<Rightarrow> []) evs)"

lemma watched_snoc [simp]:
  "watched [] = []" "watched (evs @ [ev]) = watched evs @ (case ev of Watch a \<Rightarrow> [a] | _ \<Rightarrow> [])"
  by (simp_all add: watched_def)

text \<open>
  An agent that waits or serves: its watcher has made a run from the start, and the server has the
  clients of the start-up and the store of the watcher.
\<close>

definition serverOf :: "watcher \<Rightarrow> agent_clients \<Rightarrow> grpcServer" where
  "serverOf w clients = newGRPCServer (w_store w) (fst (fst clients)) (snd (fst clients)) (snd clients)"

definition shares_store :: "ctx \<Rightarrow> 'c agent_deps \<Rightarrow> agent_Config \<Rightarrow> 'ts agent_event list \<Rightarrow> agent_state \<Rightarrow> bool" where
  "shares_store ctx deps cfg evs st =
     (let run = wexec ctx (newWatcher (ac_ClusterName cfg) (New (ac_StoreMaxSize cfg))) (watched evs)
      in case st of
           AgentWaiting w clients \<Rightarrow> run = Some w \<and> connect deps cfg = Inr clients
         | AgentServing w srv \<Rightarrow> run = Some w \<and> (\<exists>clients. connect deps cfg = Inr clients \<and> srv = serverOf w clients)
         | _ \<Rightarrow> True)"

lemma agent_shares_store:
  assumes "agent_Run ctx tnew deps cfg evs = Some st"
  shows "shares_store ctx deps cfg evs st"
  using assms unfolding agent_Run_def
proof (rule exec_all_invariant)
  show "shares_store ctx deps cfg [] (agent_start deps cfg)"
    by (auto simp: shares_store_def agent_start_def Let_def split: sum.split option.split)
  show "shares_store ctx deps cfg (evs @ [ev]) st'"
    if "shares_store ctx deps cfg evs st" "agent_step ctx tnew deps cfg st ev = Some st'" for evs ev st st'
    using that(2,1)
    by (induction ctx tnew deps cfg st ev rule: agent_step.induct)
      (auto simp: shares_store_def agent_listen_def serverOf_def newGRPCServer_def Let_def wexec_snoc
        split: option.splits phase.splits prod.splits if_splits)
qed

lemma agent_serving:
  assumes "agent_Run ctx tnew deps cfg evs = Some (AgentServing w srv)"
  shows "wrun ctx (newWatcher (ac_ClusterName cfg) (New (ac_StoreMaxSize cfg))) (watched evs) w"
    "srv_store srv = w_store w"
  using agent_shares_store [OF assms]
  by (auto simp: shares_store_def serverOf_def newGRPCServer_def intro: wexec_wrun)

text \<open>A watcher under a context that is never done only starts and runs.\<close>

lemma wnext_Background:
  assumes "wnext Background w a = Some w'" "\<not> w_ctxDone w"
  shows "\<not> w_ctxDone w'"
    and "w_phase w = Starting \<Longrightarrow> w_phase w' = (if a = CacheSynced then Running else Starting)"
    and "w_phase w = Running \<Longrightarrow> w_phase w' = Running \<and> a \<noteq> CacheSynced"
  using assms
  by (cases a; auto simp: wnext_def handle_def Let_def split: option.splits list.splits loop.splits if_splits)+

text \<open>
  The events that end a process that has started, with the exit code: the end of the cache sync
  when the address cannot be bound, a call for pod metrics without a metrics client, and the failure
  of the server.
\<close>

definition ending :: "bool \<Rightarrow> string option \<Rightarrow> 'ts agent_event \<Rightarrow> nat option" where
  "ending noMetrics listenErr ev =
     (case ev of
        Watch CacheSynced \<Rightarrow> if listenErr \<noteq> None then Some 1 else None
      | Call (CallGetPodMetrics req) \<Rightarrow> if noMetrics then Some 2 else None
      | Stop (ServeFailed err) \<Rightarrow> Some 1
      | _ \<Rightarrow> None)"

fun first_ending :: "bool \<Rightarrow> string option \<Rightarrow> 'ts agent_event list \<Rightarrow> process" where
  "first_ending noMetrics listenErr [] = Alive"
| "first_ending noMetrics listenErr (ev # evs) =
     (case ending noMetrics listenErr ev of Some code \<Rightarrow> Exited code | None \<Rightarrow> first_ending noMetrics listenErr evs)"

lemma first_ending_snoc:
  "first_ending m l (evs @ [ev]) =
     (case first_ending m l evs of
        Alive \<Rightarrow> (case ending m l ev of None \<Rightarrow> Alive | Some code \<Rightarrow> Exited code)
      | Exited code \<Rightarrow> Exited code)"
  by (induction evs) (auto split: process.split option.split)

lemma first_ending_codes: "first_ending m l evs \<noteq> Exited 0"
proof (induction evs rule: rev_induct)
  case (snoc ev evs)
  have "ending m l ev \<noteq> Some 0"
    by (auto simp: ending_def split: agent_event.split action.split rpc.split stop.split)
  then show ?case using snoc by (auto simp: first_ending_snoc split: process.split option.split)
qed simp

text \<open>What is known of an agent that started under such a context.\<close>

definition background_ok ::
  "metrics_client interface \<Rightarrow> string option \<Rightarrow> 'ts agent_event list \<Rightarrow> agent_state \<Rightarrow> bool" where
  "background_ok metrics listenErr evs st \<longleftrightarrow>
     agent_process st = first_ending (metrics = NilPointer) listenErr evs
     \<and> (case st of
          AgentWaiting w clients \<Rightarrow> \<not> w_ctxDone w \<and> w_phase w = Starting \<and> snd clients = metrics
        | AgentServing w srv \<Rightarrow> \<not> w_ctxDone w \<and> w_phase w = Running \<and> srv_metrics srv = metrics
        | _ \<Rightarrow> True)"

lemma GetPodMetrics_panics: "srv_metrics srv \<noteq> NilInterface \<Longrightarrow>
  GetPodMetrics tnew srv req = None \<longleftrightarrow> srv_metrics srv = NilPointer"
  by (cases "srv_metrics srv") (simp_all add: GetPodMetrics_def Let_def)

lemma background_step:
  assumes "background_ok metrics (ad_listen deps (ac_GRPCAddr cfg)) evs st" "metrics \<noteq> NilInterface"
    and "agent_step Background tnew deps cfg st ev = Some st'"
  shows "background_ok metrics (ad_listen deps (ac_GRPCAddr cfg)) (evs @ [ev]) st'"
proof (cases st)
  case (AgentWaiting w clients)
  then have w: "\<not> w_ctxDone w" "w_phase w = Starting" "snd clients = metrics"
    "first_ending (metrics = NilPointer) (ad_listen deps (ac_GRPCAddr cfg)) evs = Alive"
    using assms(1) by (auto simp: background_ok_def)
  obtain a where a: "ev = Watch a" using assms(3) AgentWaiting by (cases ev) auto
  obtain w' where w': "wnext Background w a = Some w'"
    and st': "st' = (case w_phase w' of
             Starting \<Rightarrow> AgentWaiting w' clients
           | Agent.Failed \<Rightarrow> AgentReturned (Some (''watcher start: '' @ ad_ctxErr deps))
           | _ \<Rightarrow> agent_listen deps cfg w' clients)"
    using assms(3) AgentWaiting a by (auto split: option.splits)
  note bg = wnext_Background(1,2) [OF w' w(1)]
  show ?thesis
  proof (cases "a = CacheSynced")
    case True
    then have "st' = agent_listen deps cfg w' clients" using st' bg(2) w(2) by simp
    then show ?thesis
      using True a w bg
      by (cases clients) (auto simp: background_ok_def first_ending_snoc ending_def agent_listen_def newGRPCServer_def
          exitCode_def split: option.split)
  next
    case False
    then have "ending (metrics = NilPointer) (ad_listen deps (ac_GRPCAddr cfg)) ev = None"
      using a by (simp add: ending_def split: action.split)
    then show ?thesis using False st' w bg by (simp add: background_ok_def first_ending_snoc)
  qed
next
  case (AgentServing w srv)
  then have w: "\<not> w_ctxDone w" "w_phase w = Running" "srv_metrics srv = metrics"
    "first_ending (metrics = NilPointer) (ad_listen deps (ac_GRPCAddr cfg)) evs = Alive"
    using assms(1) by (auto simp: background_ok_def)
  show ?thesis
  proof (cases ev)
    case (Watch a)
    then obtain w' where w': "wnext Background w a = Some w'" "st' = AgentServing w' (srv \<lparr>srv_store := w_store w'\<rparr>)"
      using assms(3) AgentServing by (auto split: option.splits)
    have "ending (metrics = NilPointer) (ad_listen deps (ac_GRPCAddr cfg)) ev = None"
      using Watch wnext_Background(3) [OF w'(1) w(1,2)] by (auto simp: ending_def split: action.split)
    then show ?thesis
      using w w'(2) wnext_Background(1,3) [OF w'(1) w(1)] by (simp add: background_ok_def first_ending_snoc)
  next
    case (Call c)
    then show ?thesis
      using assms(2,3) AgentServing w GetPodMetrics_panics [of srv tnew]
      by (cases c) (auto simp: background_ok_def first_ending_snoc ending_def rpc_panics_def Option.is_none_def)
  next
    case (Stop s)
    then show ?thesis
      using assms(3) AgentServing w
      by (cases s) (auto simp: background_ok_def first_ending_snoc ending_def exitCode_def)
  qed
qed (use assms in \<open>auto simp: background_ok_def first_ending_snoc split: process.splits\<close>)

lemma agent_background:
  assumes "agent_Run Background tnew deps cfg evs = Some st" "connect deps cfg = Inr (kc, metrics)" "ad_addHandler deps = None"
    and "metrics \<noteq> NilInterface"
  shows "background_ok metrics (ad_listen deps (ac_GRPCAddr cfg)) evs st"
  using assms(1) unfolding agent_Run_def
proof (rule exec_all_invariant)
  show "background_ok metrics (ad_listen deps (ac_GRPCAddr cfg)) [] (agent_start deps cfg)"
    using assms(2,3)
    by (simp add: background_ok_def agent_start_def newWatcher_def)
qed (use background_step assms(4) in blast)

lemma exec_all_Returned: "exec_all (agent_step ctx tnew deps cfg) (AgentReturned err) evs = Some (AgentReturned err)"
  by (induction evs) simp_all

lemma coord_background:
  assumes "exec_all (coord_step Background quote rfc3339 rng shutdownErr) (CoordServing g rw) evs = Some st"
  shows "case st of
      CoordServing g' rw' \<Rightarrow> list_all (\<lambda>ev. case ev of Request _ \<Rightarrow> True | _ \<Rightarrow> False) evs
    | CoordReturned err \<Rightarrow> err \<noteq> None \<and> list_ex (\<lambda>ev. case ev of CoordStop (ServeFailed _) \<Rightarrow> True | _ \<Rightarrow> False) evs"
  using assms
proof (rule exec_all_invariant)
  show "case st' of
      CoordServing g' rw' \<Rightarrow> list_all (\<lambda>ev. case ev of Request _ \<Rightarrow> True | _ \<Rightarrow> False) (evs @ [ev])
    | CoordReturned err \<Rightarrow> err \<noteq> None \<and> list_ex (\<lambda>ev. case ev of CoordStop (ServeFailed _) \<Rightarrow> True | _ \<Rightarrow> False) (evs @ [ev])"
    if "case st of
      CoordServing g' rw' \<Rightarrow> list_all (\<lambda>ev. case ev of Request _ \<Rightarrow> True | _ \<Rightarrow> False) evs
    | CoordReturned err \<Rightarrow> err \<noteq> None \<and> list_ex (\<lambda>ev. case ev of CoordStop (ServeFailed _) \<Rightarrow> True | _ \<Rightarrow> False) evs"
      "coord_step Background quote rfc3339 rng shutdownErr st ev = Some st'" for evs ev st st'
    using that
    by (cases st; cases ev) (auto split: stop.splits elim: coord_step.elims)
qed simp

lemma agent_outcome:
  assumes "agent_Run Background tnew deps cfg evs = Some st"
  shows "agent_process st =
    (case KubeConfig (ad_inCluster deps) (ad_buildConfig deps) (ad_recommended deps) cfg of
       Inl _ \<Rightarrow> Exited 1
     | Inr restCfg \<Rightarrow>
         if isl (ad_newClient deps restCfg) \<or> ad_addHandler deps \<noteq> None then Exited 1
         else first_ending (isl (ad_newMetrics deps restCfg)) (ad_listen deps (ac_GRPCAddr cfg)) evs)"
proof -
  have early: "agent_process st = Exited 1" if "agent_start deps cfg = AgentReturned (Some err)" for err
    using assms that by (auto simp: agent_Run_def exec_all_Returned exitCode_def)
  show ?thesis
  proof (cases "connect deps cfg")
    case (Inl err)
    then have "agent_process st = Exited 1" by (intro early) (simp add: agent_start_def)
    then show ?thesis using Inl by (auto simp: connect_def split: sum.splits)
  next
    case (Inr clients)
    then obtain restCfg kc where c: "KubeConfig (ad_inCluster deps) (ad_buildConfig deps) (ad_recommended deps) cfg = Inr restCfg"
      "ad_newClient deps restCfg = Inr kc" "clients = (kc, metricsInterface (ad_newMetrics deps restCfg))"
      by (auto simp: connect_def split: sum.splits)
    have m: "metricsInterface r \<noteq> NilInterface" "metricsInterface r = NilPointer \<longleftrightarrow> isl r" for r
      by (simp_all add: metricsInterface_def split: sum.split)
    show ?thesis
    proof (cases "ad_addHandler deps")
      case None
      then show ?thesis
        using agent_background [OF assms Inr [unfolded c(3)] None m(1)] c(1,2) m(2) by (simp add: background_ok_def)
    next
      case (Some err)
      then have "agent_process st = Exited 1" using Inr by (intro early) (simp add: agent_start_def Let_def)
      then show ?thesis using Some c by simp
    qed
  qed
qed

lemma coord_outcome:
  assumes "coordinator_Run Background quote rfc3339 rng http shutdownErr cfg rd wld evs = Some st"
  shows "coord_process st =
    (if list_ex (\<lambda>ev. case ev of CoordStop (ServeFailed _) \<Rightarrow> True | _ \<Rightarrow> False) evs then Exited 1 else Alive)"
proof -
  obtain g r where "exec_all (coord_step Background quote rfc3339 rng shutdownErr) (CoordServing g (r, wld)) evs = Some st"
    using assms by (auto simp: coordinator_Run_def split_beta)
  note ok = coord_background [OF this]
  have "list_all (\<lambda>ev. case ev of Request _ \<Rightarrow> True | _ \<Rightarrow> False) evs \<Longrightarrow>
      \<not> list_ex (\<lambda>ev. case ev of CoordStop (ServeFailed _) \<Rightarrow> True | _ \<Rightarrow> False) evs"
    by (induction evs) (auto split: coord_event.splits)
  then show ?thesis using ok by (cases st) (auto simp: exitCode_def)
qed

section \<open>Properties\<close>

text \<open>
  C31. How the processes end. Whatever happens after the start of the agent, it ends exactly when
  its cluster name is missing, the cluster cannot be reached, the event handler cannot be registered,
  or at the first of these events: the end of the cache sync when the address cannot be bound, a call
  for pod metrics when the metrics client could not be created, and a failure of the server. The exit
  code is 2, that of a panic, for the call, and 1 in all other cases. The coordinator ends exactly at
  a failure of its server, with code 1, whatever requests it serves. Under the context of the entry
  points no event leads to the exit code 0: the orderly shutdown is never reached.
\<close>

theorem main_outcome:
  assumes "agent_main tnew deps Getenv evs = Some p"
    and "coordinator_main quote rfc3339 rng http shutdownErr Getenv rd wld cevs = Some q"
  shows "p = (case agent_FromEnv Getenv of
        Inl _ \<Rightarrow> Exited 1
      | Inr cfg \<Rightarrow>
          (case KubeConfig (ad_inCluster deps) (ad_buildConfig deps) (ad_recommended deps) cfg of
             Inl _ \<Rightarrow> Exited 1
           | Inr restCfg \<Rightarrow>
               if isl (ad_newClient deps restCfg) \<or> ad_addHandler deps \<noteq> None then Exited 1
               else first_ending (isl (ad_newMetrics deps restCfg)) (ad_listen deps (ac_GRPCAddr cfg)) evs))
    \<and> p \<noteq> Exited 0
    \<and> q = (if list_ex (\<lambda>ev. case ev of CoordStop (ServeFailed _) \<Rightarrow> True | _ \<Rightarrow> False) cevs then Exited 1 else Alive)"
proof -
  have agent: "p = (case agent_FromEnv Getenv of
        Inl _ \<Rightarrow> Exited 1
      | Inr cfg \<Rightarrow>
          (case KubeConfig (ad_inCluster deps) (ad_buildConfig deps) (ad_recommended deps) cfg of
             Inl _ \<Rightarrow> Exited 1
           | Inr restCfg \<Rightarrow>
               if isl (ad_newClient deps restCfg) \<or> ad_addHandler deps \<noteq> None then Exited 1
               else first_ending (isl (ad_newMetrics deps restCfg)) (ad_listen deps (ac_GRPCAddr cfg)) evs))"
  proof (cases "agent_FromEnv Getenv")
    case (Inr cfg)
    then obtain st where st: "agent_Run Background tnew deps cfg evs = Some st" "p = agent_process st"
      using assms(1) by (auto simp: agent_main_def agent_New_def)
    show ?thesis
      using agent_outcome [OF st(1)] Inr st(2) by simp
  qed (use assms(1) in \<open>simp add: agent_main_def agent_New_def\<close>)
  moreover have "p \<noteq> Exited 0"
    unfolding agent using first_ending_codes by (auto split: sum.split)
  moreover obtain st where "coordinator_Run Background quote rfc3339 rng http shutdownErr (coord_fromEnv Getenv) rd wld cevs = Some st"
    "q = coord_process st"
    using assms(2) by (auto simp: coordinator_main_def)
  then have "q = (if list_ex (\<lambda>ev. case ev of CoordStop (ServeFailed _) \<Rightarrow> True | _ \<Rightarrow> False) cevs then Exited 1 else Alive)"
    using coord_outcome by blast
  ultimately show ?thesis by blast
qed

section \<open>Examples\<close>

definition exampleEnv :: "string \<Rightarrow> string" where
  "exampleEnv k = (if k = ''MCP_CLUSTER_NAME'' then ''prod'' else if k = ''MCP_STORE_MAX_SIZE'' then ''3'' else '''')"

text \<open>A cluster that can be reached, without a metrics server.\<close>

definition exampleDeps :: "unit agent_deps" where
  "exampleDeps = \<lparr> ad_inCluster = Inl ''not in a cluster'', ad_buildConfig = (\<lambda>_. Inr ()), ad_recommended = ''/root/.kube/config'',
     ad_newClient = (\<lambda>_. Inr ((\<lambda>_. exampleClient), (\<lambda>ns pod opts. Inr (Inr ''log'')))),
     ad_newMetrics = (\<lambda>_. Inl ''no metrics''), ad_addHandler = None, ad_ctxErr = ''context canceled'',
     ad_listen = (\<lambda>_. None) \<rparr>"

definition exampleAgentConfig :: agent_Config where
  "exampleAgentConfig = \<lparr>ac_ClusterName = ''prod'', ac_GRPCAddr = '':50051'', ac_WatchNamespace = '''', ac_StoreMaxSize = 3,
     ac_KubeconfigPath = ''''\<rparr>"

text \<open>The actions of the example run of the watcher, with calls between them.\<close>

definition exampleEvents :: "(int \<times> int) agent_event list" where
  "exampleEvents = map Watch (take 4 exampleActs) @ [Call (CallGetNamespaceSummary \<lparr>nsr_Namespace = ''ns'', nsr_Since = None\<rparr>)]
     @ map Watch (drop 4 exampleActs)"

lemma exampleEvents_watched: "watched exampleEvents = exampleActs"
  by (simp add: watched_def exampleEvents_def exampleActs_def)

text \<open>With a context that can be cancelled the agent can stop in the orderly way.\<close>

lemma cancellable_stops:
  "agent_Run Cancellable unixNew exampleDeps exampleAgentConfig (exampleEvents @ [Watch CtxDone, Stop Cancelled])
     = Some (AgentReturned None)"
proof -
  have "case agent_Run Cancellable unixNew exampleDeps exampleAgentConfig (exampleEvents @ [Watch CtxDone, Stop Cancelled])
      of Some (AgentReturned None) \<Rightarrow> True | _ \<Rightarrow> False" by code_simp
  then show ?thesis by (auto split: option.splits agent_state.splits)
qed

lemma exampleAgent_serving:
  "agent_Run Background unixNew exampleDeps exampleAgentConfig exampleEvents = Some (AgentServing exampleWatcher exampleServer)"
proof -
  have "case agent_Run Background unixNew exampleDeps exampleAgentConfig exampleEvents
      of Some (AgentServing w srv) \<Rightarrow> True | _ \<Rightarrow> False" by code_simp
  then obtain w srv where run: "agent_Run Background unixNew exampleDeps exampleAgentConfig exampleEvents = Some (AgentServing w srv)"
    by (auto split: option.splits agent_state.splits)
  have connected: "connect exampleDeps exampleAgentConfig =
      Inr (((\<lambda>_. exampleClient), (\<lambda>ns pod opts. Inr (Inr ''log''))), metricsInterface (Inl ''no metrics''))"
    by (simp add: connect_def KubeConfig_def exampleDeps_def exampleAgentConfig_def)
  have "wexec Background (newWatcher ''prod'' (New 3)) exampleActs = Some w"
    "srv = newGRPCServer (w_store w) (\<lambda>_. exampleClient) (\<lambda>ns pod opts. Inr (Inr ''log'')) (metricsInterface (Inl ''no metrics''))"
    using agent_shares_store [OF run] exampleEvents_watched connected
    by (simp_all add: shares_store_def exampleAgentConfig_def serverOf_def)
  then show ?thesis using run by (simp add: exampleWatcher_def exampleServer_def)
qed

text \<open>A call for pod metrics, and requests to the coordinator before its server fails.\<close>

definition exampleFatal :: "(int \<times> int) agent_event list" where
  "exampleFatal = exampleEvents @ [Call (CallGetPodMetrics \<lparr>pmr_Namespace = ''ns'', pmr_Pod = ''p''\<rparr>), Stop (ServeFailed ''closed'')]"

definition exampleCoordEvents :: "(int \<times> int) coord_event list" where
  "exampleCoordEvents = map Request exampleCalls @ [CoordStop (ServeFailed ''in use'')]"

theorem main_outcome_witness:
  "agent_main unixNew exampleDeps exampleEnv exampleFatal = Some (Exited 2)
   \<and> coordinator_main (\<lambda>s. s) (\<lambda>_. '''') sorted_list_of_set exampleHttp None exampleEnv NotExist exampleWorld exampleCoordEvents
       = Some (Exited 1)"
proof -
  have "agent_main unixNew exampleDeps exampleEnv exampleFatal \<noteq> None" by code_simp
  then obtain p where p: "agent_main unixNew exampleDeps exampleEnv exampleFatal = Some p" by blast
  have "coordinator_main (\<lambda>s. s) (\<lambda>_. '''') sorted_list_of_set exampleHttp None exampleEnv NotExist exampleWorld exampleCoordEvents \<noteq> None"
    by code_simp
  then obtain q where q: "coordinator_main (\<lambda>s. s) (\<lambda>_. '''') sorted_list_of_set exampleHttp None exampleEnv NotExist exampleWorld
      exampleCoordEvents = Some q" by blast
  have cfg: "agent_FromEnv exampleEnv = Inr exampleAgentConfig" by code_simp
  have fatal: "first_ending True None exampleFatal = Exited 2" by code_simp
  have stop: "list_ex (\<lambda>ev. case ev of CoordStop (ServeFailed _) \<Rightarrow> True | _ \<Rightarrow> False) exampleCoordEvents"
    by (simp add: exampleCoordEvents_def)
  show ?thesis
    using main_outcome [OF p q] p q cfg fatal stop by (simp add: KubeConfig_def exampleDeps_def exampleAgentConfig_def)
qed

end
