(* ===== verification/Spec2Isabelle.thy ===== *)
theory Spec2Isabelle
  imports Lifecycle
begin

text \<open>
  Verification of \<^verbatim>\<open>mcp-k8s\<close>, a service that answers questions about Kubernetes clusters.

  \<^bold>\<open>The program.\<close> One cluster agent runs in each cluster. Its watcher receives the events of the
  Kubernetes API from an informer, normalises them, resolves the chain of owners of the object they
  are about and stores them in a bounded in-memory store; a gRPC server answers queries about the
  stored events, the objects, their logs and their metrics. One coordinator keeps a registry of the
  agents in a file, plans the RPC calls that a query needs, executes them, correlates the events
  into a timeline with causes and effects, and renders a response over HTTP. For questions in
  natural language it asks an LLM server for the intent and for the narration.

  \<^bold>\<open>Theories, in the order of their imports, and the sources under\<close> \<^verbatim>\<open>src/\<close> \<^bold>\<open>they model.\<close>
  \<^descr> \<^verbatim>\<open>Prelude\<close>: machine integers, instants, Go maps and their enumeration (locale
    \<open>go_range\<close>), the string functions of the standard library, sorting (locale \<open>slice_sort\<close>) and
    generic lemmas.
  \<^descr> \<^verbatim>\<open>Utf8\<close>, \<^verbatim>\<open>Json\<close>: the packages \<^verbatim>\<open>unicode/utf8\<close> and
    \<^verbatim>\<open>encoding/json\<close> as far as the coordinator uses them: decoding and coercion of UTF-8, the
    byte-wise JSON scanner with its stack, the encoder in both layouts (locale \<open>json_layout\<close>,
    interpreted for the compact and the indented one) and the decoding into struct fields. The
    scanner reads back what the encoder writes, and every decoded string is valid UTF-8.
  \<^descr> \<^verbatim>\<open>Events\<close>: \<^verbatim>\<open>pkg/events\<close>, the normalised event, the normalisation and the
    deduplicator.
  \<^descr> \<^verbatim>\<open>Event_Store\<close>: \<^verbatim>\<open>pkg/store\<close>, the ring buffer with its inverted indexes and
    burst history. The record \<open>Store\<close> has the fields of the struct; \<open>Add\<close>, \<open>Query\<close> and
    \<open>SummarizeNamespace\<close> are its operations. It keeps \<open>store_inv\<close> and implements a bounded list
    of events (locale \<open>event_buffer\<close>); the indexes are an instance of the locale \<open>index_field\<close>.
  \<^descr> \<^verbatim>\<open>Correlation\<close>: \<^verbatim>\<open>pkg/correlation\<close>, grouping by workload and causal
    annotation. The timeline is a chronological permutation of the input; causes are sound and
    complete with respect to the pattern table and lead back to a root cause.
  \<^descr> \<^verbatim>\<open>Planner\<close>: \<^verbatim>\<open>pkg/planner\<close>, from a query to the steps of its plan.
  \<^descr> \<^verbatim>\<open>Enrichment\<close>: \<^verbatim>\<open>pkg/enrichment\<close>, owner chains and object snapshots over
    an argument for the Kubernetes API.
  \<^descr> \<^verbatim>\<open>Wire\<close>: the protobuf messages of \<^verbatim>\<open>proto/gen/clusteragentpb\<close> and the
    conversions of both sides; the locale \<open>timestamps\<close> is the documented law of the timestamp
    conversions.
  \<^descr> \<^verbatim>\<open>Agent\<close>: \<^verbatim>\<open>internal/app/clusteragent\<close>, the RPC handlers, the watcher as a
    step relation \<open>wstep\<close> over a bounded channel, and the configuration. Every accepted event is in
    the channel, in flight in the pipeline loop, or in the store, in order, and nothing is lost while
    the channel is not full.
  \<^descr> \<^verbatim>\<open>Registry\<close>: \<^verbatim>\<open>internal/app/coordinator/registry.go\<close>, the entries, the
    connections and the registry file with its JSON text. It is a map from names to entries in
    every run, connections are neither leaked nor stale, and a save is atomic.
  \<^descr> \<^verbatim>\<open>Executor\<close>, \<^verbatim>\<open>Response\<close>: \<^verbatim>\<open>executor.go\<close> and
    \<^verbatim>\<open>response.go\<close>, the execution of a plan, whose steps are independent of each other, and
    the rendering of the result. The locale \<open>agent_service\<close> is what the executor relies on; the
    agent's handlers are its interpretation.
  \<^descr> \<^verbatim>\<open>Llm\<close>: \<^verbatim>\<open>pkg/llm\<close>, the prompts and the Ollama client down to the bytes of
    its requests.
  \<^descr> \<^verbatim>\<open>Gateway\<close>, \<^verbatim>\<open>Reply\<close>, \<^verbatim>\<open>Coordinator\<close>: \<^verbatim>\<open>gateway.go\<close>,
    \<^verbatim>\<open>config.go\<close> and the set-up of \<^verbatim>\<open>coordinator.go\<close>: handlers from request bytes
    to replies, the bytes of the replies, and runs of the coordinator as sequences of HTTP
    requests. A question is answered as the query that its extracted intent names. The registrations
    are exactly those that authorised requests made, a restart restores them, and the listing is
    complete.
  \<^descr> \<^verbatim>\<open>Lifecycle\<close>: both \<^verbatim>\<open>Run\<close> functions and the entry points under
    \<^verbatim>\<open>cmd\<close>, from the environment to the exit code. A process is a function of its events: the
    actions of the watcher, the calls or requests it serves, and the cases of the final
    \<^verbatim>\<open>select\<close>. The entry points pass the context \<open>Background\<close>, which is never done; a panic in an
    RPC handler ends the agent.
  \<^descr> This theory: the composition of all of them, from the events that an informer delivers to the
    bytes of a query and the timeline of its reply.

  \<^bold>\<open>How the code is modelled.\<close> A struct is a record with the fields of the source, an operation a
  function from the state and its arguments to the new state and a result, an error a value of a
  sum or an option. \<^verbatim>\<open>int\<close>, \<^verbatim>\<open>int32\<close> and \<^verbatim>\<open>uint64\<close> are words of their
  width, so overflow is modelled. Instants are nanoseconds since the zero time. A string is its
  list of bytes. Operations that hold a lock from beginning to end are single steps. A turn of the
  pipeline loop is three steps, the receive, the walk along the owners and the update of the store,
  with the local event in between as part of the state. What the language leaves open is an argument about which only the documented law is assumed: the order of
  a map iteration (\<open>go_range\<close>) and the order of equal elements after a sort (\<open>slice_sort\<close>).

  \<^bold>\<open>Bounds.\<close> The walk along owners is bounded by \<open>maxChainDepth\<close>, which is its recursion argument;
  the channel holds \<open>pipelineBuffer\<close> events; JSON nesting is bounded by \<open>maxNestingDepth\<close>. These are
  the constants of the sources and of the standard library. No definition has fuel besides: all recursion is structural or has a
  termination proof by the length of a string or a list.

  \<^bold>\<open>Arguments that stand for code outside the repository.\<close> The Kubernetes, log and metrics APIs; the
  dialling of a connection; the file system (\<open>fs_outcome\<close>, \<open>read_result\<close>), with every failure; the
  HTTP exchange with the LLM server; the timestamp conversions of protobuf; the clock. Arguments for
  texts of the standard library: the layouts of instants, the verb \<^verbatim>\<open>%q\<close> and the texts of
  JSON errors.

  \<^bold>\<open>Not modelled.\<close> Logging; the generated gRPC stubs, which forward to the library; the gRPC, health
  and HTTP servers of the libraries beyond the requests they deliver and the error they end with;
  cancellation of a request in flight; a panic in an HTTP handler, which the server of the library
  recovers. Concurrent requests are modelled by the order in which they
  change the registry or the store, since each of these operations holds the lock.
\<close>

section \<open>From the watch to the answer\<close>

text \<open>
  The events a running agent has stored, as a function of what was delivered to it: the
  bounded-list specification of the store applied to the events that the pipeline has finished,
  with their owner chains.
\<close>

definition finished :: "string \<Rightarrow> action list \<Rightarrow> NormalizedEvent list" where
  "finished cn acts = take (added acts) (map2 enrich (answers acts) (deliveries cn acts))"

lemma stored_by_run:
  assumes "wrun ctx (newWatcher cn (New n)) acts w" "within_buffer cn acts"
  shows "store_inv (w_store w)"
    and "contents (w_store w) = foldl (spec_add (maxSize (New n))) [] (finished cn acts)"
proof -
  have "w_store w = foldl Add (New n) (finished cn acts)"
    using wrun_lossless [OF assms(1) refl assms(2)] by (simp add: fed_def finished_def)
  then show "store_inv (w_store w)" "contents (w_store w) = foldl (spec_add (maxSize (New n))) [] (finished cn acts)"
    using buf.run_invar buf.run_items by simp_all
qed

text \<open>The surroundings of an overview: an agent behind a reliable connection of the queried cluster.\<close>

definition overview_setting ::
  "'ts env \<Rightarrow> (uint64 set \<Rightarrow> uint64 list) \<Rightarrow> (string set \<Rightarrow> string list) \<Rightarrow> grpcServer \<Rightarrow> QueryRequest
   \<Rightarrow> Registry \<times> World \<Rightarrow> conn \<Rightarrow> bool" where
  "overview_setting e rng srng srv req rw c \<longleftrightarrow>
     runtime_ok (e_erng e) (e_grng e) (e_sortE e) (e_sortC e) \<and> timestamps (e_tnew e) (e_astime e)
     \<and> go_range rng \<and> go_range srng
     \<and> qr_ClusterName req \<noteq> '''' \<and> qr_Intent req = ''NamespaceOverview''
     \<and> fst (Client (e_dial e) (qr_ClusterName req) rw) = Inr c
     \<and> e_service e c = (\<lambda>_. directClient (e_tnew e) (e_astime e) rng srng srv)"

lemma overview_reply:
  assumes "overview_setting e rng srng srv req rw c" "store_inv (srv_store srv)" "decodeQuery bdy = Inr req"
  shows "\<exists>result rw'. handleQuery e bdy rw =
      ((200, QueryBody (Build (e_astime e) (e_grng e) (qr_ClusterName req) (parseMode (qr_Mode req))
          (correlate e (er_Events result)) result)), rw')
    \<and> er_StepErrors result = []
    \<and> newest_matching (contents (srv_store srv))
        \<lparr>f_Namespace = qr_Namespace req, f_ObjectUID = '''', f_Reason = '''',
         f_Since = sinceOf (e_now e) (qr_SinceMinutes req), f_Limit = scast (ucast (qr_Limit req) :: int32)\<rparr>
        (er_Events result)
    \<and> distinct (map neg_Reason (er_NamespaceSummaries result))
    \<and> set (map neg_Reason (er_NamespaceSummaries result)) =
        Reason ` set (filter (in_scope (qr_Namespace req) (sinceOf (e_now e) (qr_SinceMinutes req))) (contents (srv_store srv)))"
proof -
  note set = assms(1) [unfolded overview_setting_def]
  let ?cl = "directClient (e_tnew e) (e_astime e) rng srng srv"
  let ?result = "runSteps (e_tnew e) (e_astime e) (\<lambda>_. ?cl) 0 (namespaceOverview (queryOf e req)) emptyResult"
  have serv: "agent_service (e_tnew e) (e_astime e) ?cl (contents (srv_store srv))"
    using set assms(2) by (intro direct_agent_service) simp_all
  have plan: "makePlan (queryOf e req) =
      Inr \<lparr>pl_ClusterName = qr_ClusterName req, pl_Steps = namespaceOverview (queryOf e req)\<rparr>"
    using set by (simp add: makePlan_def queryOf_def parseIntent_def)
  obtain rw' where client: "Client (e_dial e) (qr_ClusterName req) rw = (Inr c, rw')"
    using set by (cases "Client (e_dial e) (qr_ClusterName req) rw") simp
  note ov = agent_service.overview_result [OF serv refl, of "queryOf e req"]
  have "handleQuery e bdy rw =
      ((resultStatus ?result, QueryBody (Build (e_astime e) (e_grng e) (qr_ClusterName req) (parseMode (qr_Mode req))
          (correlate e (er_Events ?result)) ?result)), rw')"
    using handleQuery_executed [where bdy = bdy, OF assms(3) plan client refl] set by simp
  moreover have "resultStatus ?result = 200" using ov by (simp add: resultStatus_def)
  ultimately show ?thesis using ov by (intro exI [of _ ?result] exI [of _ rw']) (simp add: queryOf_def)
qed

text \<open>
  C1. End to end: a namespace overview over an agent that was started and serves, whatever calls it
  has answered before, succeeds without warnings, and its timeline is the agent's view of the cluster.
  The stored events are those of the bounded-list specification on everything the informer delivered
  and the pipeline finished, each with the owner chain found for it, without the event in flight;
  the timeline holds exactly the newest of them that match the namespace and the time window,
  up to the limit, in chronological order; and the summary lists every reason of the namespace
  exactly once.
\<close>

theorem overview_end_to_end:
  assumes "agent_Run ctx (e_tnew e) deps cfg happened = Some (AgentServing w srv)" "acts = watched happened"
    and "within_buffer (ac_ClusterName cfg) acts"
    and "overview_setting e rng srng srv req rw c"
    and "decodeQuery bdy = Inr req" "qr_Mode req = ''technical''"
    and "stored = foldl (spec_add (maxSize (New (ac_StoreMaxSize cfg)))) []
           (take (added acts) (map2 enrich (answers acts) (deliveries (ac_ClusterName cfg) acts)))"
    and "since = sinceOf (e_now e) (qr_SinceMinutes req)"
  shows "\<exists>resp rw' evs ces. handleQuery e bdy rw = ((200, QueryBody resp), rw')
    \<and> rs_Warnings resp = []
    \<and> rs_Timeline resp = toEventLines ces
    \<and> mset (map NormalizedEvent.truncate ces) = mset evs \<and> sorted (map LastSeen ces)
    \<and> newest_matching stored
        \<lparr>f_Namespace = qr_Namespace req, f_ObjectUID = '''', f_Reason = '''', f_Since = since,
         f_Limit = scast (ucast (qr_Limit req) :: int32)\<rparr> evs
    \<and> distinct (map nsl_Reason (rs_NamespaceSummary resp))
    \<and> set (map nsl_Reason (rs_NamespaceSummary resp)) = Reason ` set (filter (in_scope (qr_Namespace req) since) stored)"
proof -
  note serving = agent_serving [OF assms(1), folded assms(2)]
  note stored = stored_by_run [OF serving(1) assms(3)]
  have inv: "store_inv (srv_store srv)" and cont: "contents (srv_store srv) = stored"
    using stored serving(2) assms(7) by (simp_all add: finished_def)
  have ok: "runtime_ok (e_erng e) (e_grng e) (e_sortE e) (e_sortC e)"
    using assms(4) by (simp add: overview_setting_def)
  obtain result rw' where r: "handleQuery e bdy rw =
      ((200, QueryBody (Build (e_astime e) (e_grng e) (qr_ClusterName req) (parseMode (qr_Mode req))
          (correlate e (er_Events result)) result)), rw')"
    "er_StepErrors result = []"
    "newest_matching stored \<lparr>f_Namespace = qr_Namespace req, f_ObjectUID = '''', f_Reason = '''',
         f_Since = since, f_Limit = scast (ucast (qr_Limit req) :: int32)\<rparr> (er_Events result)"
    "distinct (map neg_Reason (er_NamespaceSummaries result))"
    "set (map neg_Reason (er_NamespaceSummaries result)) = Reason ` set (filter (in_scope (qr_Namespace req) since) stored)"
    using overview_reply [of e rng srng srv req rw c bdy, OF assms(4) inv assms(5)]
    unfolding cont assms(8) by blast
  let ?t = "correlate e (er_Events result)"
  let ?resp = "Build (e_astime e) (e_grng e) (qr_ClusterName req) (parseMode (qr_Mode req)) ?t result"
  note corr = Correlate_events [OF ok, of "er_Events result", folded correlate_def]
  have "rs_Warnings ?resp = []" "rs_Timeline ?resp = toEventLines (tl_Events ?t)"
    "map nsl_Reason (rs_NamespaceSummary ?resp) = map neg_Reason (er_NamespaceSummaries result)"
    using r(2) assms(6)
    by (simp_all add: Build_def parseMode_def mode_defs Let_def toNamespaceSummaryLines_def comp_def)
  then show ?thesis
    using r corr by (intro exI [of _ ?resp] exI [of _ rw'] exI [of _ "er_Events result"] exI [of _ "tl_Events ?t"]) simp
qed

definition exampleOverview :: QueryRequest where
  "exampleOverview = exampleQuery \<lparr>qr_Intent := ''NamespaceOverview'', qr_Mode := ''technical''\<rparr>"

definition exampleOverviewBody :: string where
  \<open>exampleOverviewBody =
     ''{"cluster_name": "a", "namespace": "ns", "intent": "NamespaceOverview", "mode": "technical"}''\<close>

theorem overview_end_to_end_witness:
  "within_buffer (ac_ClusterName exampleAgentConfig) exampleActs
   \<and> overview_setting (envFor (\<lambda>_. agentClient)) sorted_list_of_set sorted_list_of_set exampleServer
        exampleOverview exampleRegistry 1
   \<and> (\<exists>resp rw' ces. handleQuery (envFor (\<lambda>_. agentClient)) exampleOverviewBody exampleRegistry =
          ((200, QueryBody resp), rw') \<and> rs_Warnings resp = [] \<and> rs_Timeline resp = toEventLines ces)"
proof -
  have buffer: "within_buffer (ac_ClusterName exampleAgentConfig) exampleActs" by code_simp
  have client: "fst (Client (e_dial (envFor (\<lambda>_. agentClient))) (qr_ClusterName exampleOverview) exampleRegistry) = Inr 1"
    by code_simp
  have setting: "overview_setting (envFor (\<lambda>_. agentClient)) sorted_list_of_set sorted_list_of_set exampleServer
        exampleOverview exampleRegistry 1"
    using client runtime_ok_example unix.timestamps_axioms
    by (simp add: overview_setting_def go_range_sorted envFor_def exampleOverview_def exampleQuery_def agentClient_def)
  have serving: "agent_Run Background (e_tnew (envFor (\<lambda>_. agentClient))) exampleDeps exampleAgentConfig exampleEvents =
      Some (AgentServing exampleWatcher exampleServer)"
    using exampleAgent_serving by (simp add: envFor_def)
  have body: "decodeQuery exampleOverviewBody = Inr exampleOverview" by code_simp
  have mode: "qr_Mode exampleOverview = ''technical''" by (simp add: exampleOverview_def)
  have "\<exists>resp rw' ces. handleQuery (envFor (\<lambda>_. agentClient)) exampleOverviewBody exampleRegistry =
      ((200, QueryBody resp), rw') \<and> rs_Warnings resp = [] \<and> rs_Timeline resp = toEventLines ces"
    using overview_end_to_end [where bdy = exampleOverviewBody,
        OF serving exampleEvents_watched [symmetric] buffer setting body mode refl refl] by blast
  then show ?thesis using buffer setting by blast
qed

end
